theory Spec2Isabelle
  imports Complex_Main "HOL-Library.Word" "HOL-Library.Sublist"
begin

section \<open>The SPSC audio ring (include/synthizer/audio_ring.hpp)\<close>

text \<open>
  \<^verbatim>\<open>std::size_t\<close> is taken as a 64-bit unsigned integer: addition and subtraction wrap
  modulo \<open>2 ^ 64\<close>, as they do in the source.
\<close>

type_synonym size_t = "64 word"

text \<open>
  A returned \<^verbatim>\<open>ELEM_T *\<close> is either \<^verbatim>\<open>nullptr\<close> (\<open>None\<close>) or
  \<^verbatim>\<open>&data_provider[0] + k\<close> (\<open>Some k\<close>): the element offset into the backing array.
\<close>

type_synonym pointer = "size_t option"

text \<open>
  The synchronisation a call performs is written to a log, in program order: the
  operations on the atomic counter with the \<^verbatim>\<open>std::memory_order\<close> they are given,
  and the operations on the auto-reset event.
\<close>

datatype memory_order = memory_order_relaxed | memory_order_acquire | memory_order_release

datatype sync_op =
    Load memory_order
  | FetchAdd size_t memory_order
  | FetchSub size_t memory_order
  | EventWait
  | EventSignal

datatype error =
    AssertionFailed
  | Blocked
  | DivisionByZero
  | BadAlloc

text \<open>
  The fields of \<^verbatim>\<open>AudioRingBase\<close>. \<open>data_provider\<close> is the backing array,
  \<open>read_end_event\<close> is the state of the \<^verbatim>\<open>AutoResetEvent\<close> (\<open>True\<close>: signalled).
\<close>

record 'e AudioRingBase =
  data_provider :: "'e list"
  write_pointer :: size_t
  read_pointer :: size_t
  samples_in_buffer :: size_t
  pending_write_size :: size_t
  pending_read_size :: size_t
  read_end_event :: bool
  sync_log :: "sync_op list"

definition size_ring :: "'e AudioRingBase \<Rightarrow> size_t" where
  "size_ring r = of_nat (length (data_provider r))"

definition log_op :: "sync_op \<Rightarrow> 'e AudioRingBase \<Rightarrow> 'e AudioRingBase" where
  "log_op x r = r\<lparr>sync_log := sync_log r @ [x]\<rparr>"

text \<open>
  \<^verbatim>\<open>AutoResetEvent::wait\<close>: a signalled event is reset and the call returns. An event
  that is not signalled suspends the caller until another thread signals it; in a
  sequential run no other thread does, and the call does not return (\<open>None\<close>).
\<close>

definition event_wait :: "'e AudioRingBase \<Rightarrow> 'e AudioRingBase option" where
  "event_wait r =
     (if read_end_event r then Some (log_op EventWait (r\<lparr>read_end_event := False\<rparr>))
      else None)"

definition event_signal :: "'e AudioRingBase \<Rightarrow> 'e AudioRingBase" where
  "event_signal r = log_op EventSignal (r\<lparr>read_end_event := True\<rparr>)"

text \<open>
  The \<^verbatim>\<open>do { ... } while (available < requested)\<close> loop of \<^verbatim>\<open>beginWrite\<close>. It returns
  the free space it last computed.
\<close>

function beginWrite_loop :: "size_t \<Rightarrow> 'e AudioRingBase \<Rightarrow> (size_t \<times> 'e AudioRingBase) option" where
  "beginWrite_loop requested r =
     (let available = size_ring r - samples_in_buffer r;
          r1 = log_op (Load memory_order_relaxed) r
      in if available < requested
         then (case event_wait r1 of
                 None \<Rightarrow> None
               | Some r2 \<Rightarrow> beginWrite_loop requested r2)
         else Some (available, r1))"
  by pat_completeness auto
termination
  by (relation "measure (\<lambda>(requested, r). if read_end_event r then 1 else 0)")
     (auto simp: event_wait_def log_op_def split: if_splits)

definition beginWrite ::
  "size_t \<Rightarrow> bool \<Rightarrow> 'e AudioRingBase \<Rightarrow>
     error + ((size_t \<times> pointer \<times> size_t \<times> pointer) \<times> 'e AudioRingBase)" where
  "beginWrite requested maxAvailable r =
     (if \<not> (maxAvailable = True \<or> requested \<noteq> 0) then Inl AssertionFailed
      else if \<not> requested \<le> size_ring r then Inl AssertionFailed
      else case beginWrite_loop requested r of
        None \<Rightarrow> Inl Blocked
      | Some (available, r1) \<Rightarrow>
          let allocating = (if maxAvailable then available else requested);
              r2 = r1\<lparr>pending_write_size := allocating\<rparr>;
              size1 = min (size_ring r2 - write_pointer r2) allocating
          in if size1 = allocating
             then Inr ((size1, Some (write_pointer r2), 0, None), r2)
             else let size2 = allocating - size1
                  in Inr ((size1, Some (write_pointer r2), size2, Some 0), r2))"

definition endWrite :: "size_t \<Rightarrow> 'e AudioRingBase \<Rightarrow> error + 'e AudioRingBase" where
  "endWrite amount r =
     (if \<not> amount \<le> pending_write_size r then Inl AssertionFailed
      else if size_ring r = 0 then Inl DivisionByZero
      else Inr (log_op (FetchAdd amount memory_order_release)
             (r\<lparr>write_pointer := (write_pointer r + amount) mod size_ring r,
                pending_write_size := pending_write_size r - amount,
                samples_in_buffer := samples_in_buffer r + amount\<rparr>)))"

definition endWrite_all :: "'e AudioRingBase \<Rightarrow> error + 'e AudioRingBase" where
  "endWrite_all r = endWrite (pending_write_size r) r"

definition beginRead ::
  "size_t \<Rightarrow> bool \<Rightarrow> 'e AudioRingBase \<Rightarrow>
     error + ((size_t \<times> pointer \<times> size_t \<times> pointer) \<times> 'e AudioRingBase)" where
  "beginRead requested maxAvailable r =
     (if \<not> (maxAvailable = True \<or> requested \<noteq> 0) then Inl AssertionFailed
      else if \<not> requested \<le> size_ring r then Inl AssertionFailed
      else let available = samples_in_buffer r;
               r1 = log_op (Load memory_order_acquire) r
           in if available = 0 \<or> (available < requested \<and> maxAvailable = False)
              then Inr ((0, None, 0, None), r1)
              else let allocating = (if maxAvailable then available else requested);
                       r2 = r1\<lparr>pending_read_size := allocating\<rparr>;
                       size1 = min allocating (size_ring r2 - read_pointer r2);
                       ptr1 = Some (read_pointer r2)
                   in if size1 = allocating
                      then Inr ((size1, ptr1, 0, None), r2)
                      else let size2 = allocating - size1;
                               ptr2 = Some 0
                           in Inr ((size1, ptr1, size2, ptr2), r2))"

definition endRead :: "size_t \<Rightarrow> 'e AudioRingBase \<Rightarrow> error + 'e AudioRingBase" where
  "endRead amount r =
     (if \<not> amount \<le> pending_read_size r then Inl AssertionFailed
      else if size_ring r = 0 then Inl DivisionByZero
      else Inr (event_signal (log_op (FetchSub amount memory_order_release)
             (r\<lparr>read_pointer := (read_pointer r + amount) mod size_ring r,
                pending_read_size := pending_read_size r - amount,
                samples_in_buffer := samples_in_buffer r - amount\<rparr>))))"

definition endRead_all :: "'e AudioRingBase \<Rightarrow> error + 'e AudioRingBase" where
  "endRead_all r = endRead (pending_read_size r) r"

text \<open>
  Construction. The default member initialisers of \<^verbatim>\<open>AudioRingBase\<close> set both pointers,
  the counter and both pending sizes to 0; the event starts unsignalled.
\<close>

definition AudioRingBase_init :: "'e list \<Rightarrow> 'e AudioRingBase" where
  "AudioRingBase_init d =
     \<lparr>data_provider = d, write_pointer = 0, read_pointer = 0, samples_in_buffer = 0,
      pending_write_size = 0, pending_read_size = 0, read_end_event = False,
      sync_log = []\<rparr>"

text \<open>
  \<^verbatim>\<open>AllocatedAudioRing(n)\<close> asserts \<open>n > 0\<close> and allocates \<^verbatim>\<open>new ELEM_T[n]()\<close>, \<open>n\<close>
  value-initialised elements. An array of \<open>2 ^ 63\<close> or more elements is larger than any
  object of a 64-bit target (\<^verbatim>\<open>PTRDIFF_MAX\<close> bytes), so that \<^verbatim>\<open>new\<close> throws.
  \<^verbatim>\<open>InlineAudioRing<n>\<close> holds a zero-initialised \<^verbatim>\<open>std::array<ELEM_T, n>\<close>; a type of
  \<open>2 ^ 63\<close> or more elements does not exist.
\<close>

definition AllocatedAudioRing :: "size_t \<Rightarrow> error + ('e::zero) AudioRingBase" where
  "AllocatedAudioRing n =
     (if \<not> n > 0 then Inl AssertionFailed
      else if 2 ^ 63 \<le> n then Inl BadAlloc
      else Inr (AudioRingBase_init (replicate (unat n) 0)))"

definition InlineAudioRing :: "size_t \<Rightarrow> error + ('e::zero) AudioRingBase" where
  "InlineAudioRing n =
     (if 2 ^ 63 \<le> n then Inl BadAlloc
      else Inr (AudioRingBase_init (replicate (unat n) 0)))"

subsection \<open>The client's side of a transaction\<close>

text \<open>
  The header describes the protocol: ``You tell it how many samples you want, and it
  gives you a pair of pointers and lengths. You write to both lengths, then tell it
  you're done.'' The client's copies go through the returned pointers into the backing
  array; a copy that leaves the array is an error.
\<close>

datatype client_error = RingError error | OutOfBounds | NullPointer

definition write_region :: "pointer \<Rightarrow> 'e list \<Rightarrow> 'e list \<Rightarrow> client_error + 'e list" where
  "write_region p xs d =
     (if xs = [] then Inr d
      else case p of
        None \<Rightarrow> Inl NullPointer
      | Some k \<Rightarrow>
          if unat k + length xs \<le> length d
          then Inr (take (unat k) d @ xs @ drop (unat k + length xs) d)
          else Inl OutOfBounds)"

definition read_region :: "pointer \<Rightarrow> size_t \<Rightarrow> 'e list \<Rightarrow> client_error + 'e list" where
  "read_region p len d =
     (if len = 0 then Inr []
      else case p of
        None \<Rightarrow> Inl NullPointer
      | Some k \<Rightarrow>
          if unat k + unat len \<le> length d
          then Inr (take (unat len) (drop (unat k) d))
          else Inl OutOfBounds)"

text \<open>
  A write transaction: \<open>beginWrite\<close>, the samples \<open>xs\<close> copied into the first region and
  then into the second, \<open>endWrite(length xs)\<close>. The client does not write more than the two
  regions hold.
\<close>

definition write_transaction ::
  "size_t \<Rightarrow> bool \<Rightarrow> 'e list \<Rightarrow> 'e AudioRingBase \<Rightarrow> client_error + 'e AudioRingBase" where
  "write_transaction requested maxAvailable xs r =
     (case beginWrite requested maxAvailable r of
        Inl e \<Rightarrow> Inl (RingError e)
      | Inr ((len1, ptr1, len2, ptr2), r1) \<Rightarrow>
          if unat len1 + unat len2 < length xs then Inl OutOfBounds
          else case write_region ptr1 (take (unat len1) xs) (data_provider r1) of
            Inl e \<Rightarrow> Inl e
          | Inr d1 \<Rightarrow>
             (case write_region ptr2 (drop (unat len1) xs) d1 of
                Inl e \<Rightarrow> Inl e
              | Inr d2 \<Rightarrow>
                 (case endWrite (of_nat (length xs)) (r1\<lparr>data_provider := d2\<rparr>) of
                    Inl e \<Rightarrow> Inl (RingError e)
                  | Inr r2 \<Rightarrow> Inr r2)))"

text \<open>
  A read transaction: \<open>beginRead\<close>; on underflow (null pointers) nothing is read and
  nothing is committed. Otherwise the client reads the first region and then the second,
  and commits either everything (\<open>endRead()\<close>) or the first \<open>n\<close> samples (\<open>endRead(n)\<close>).
  The result is the samples consumed, \<open>None\<close> on underflow.
\<close>

datatype commit = CommitAll | CommitAmount size_t

definition read_transaction ::
  "size_t \<Rightarrow> bool \<Rightarrow> commit \<Rightarrow> 'e AudioRingBase \<Rightarrow>
     client_error + ('e list option \<times> 'e AudioRingBase)" where
  "read_transaction requested maxAvailable c r =
     (case beginRead requested maxAvailable r of
        Inl e \<Rightarrow> Inl (RingError e)
      | Inr ((len1, ptr1, len2, ptr2), r1) \<Rightarrow>
          if ptr1 = None then Inr (None, r1)
          else case read_region ptr1 len1 (data_provider r1) of
            Inl e \<Rightarrow> Inl e
          | Inr xs1 \<Rightarrow>
             (case read_region ptr2 len2 (data_provider r1) of
                Inl e \<Rightarrow> Inl e
              | Inr xs2 \<Rightarrow>
                 (case c of
                    CommitAll \<Rightarrow>
                      (case endRead_all r1 of
                         Inl e \<Rightarrow> Inl (RingError e)
                       | Inr r2 \<Rightarrow> Inr (Some (xs1 @ xs2), r2))
                  | CommitAmount n \<Rightarrow>
                      (case endRead n r1 of
                         Inl e \<Rightarrow> Inl (RingError e)
                       | Inr r2 \<Rightarrow> Inr (Some (take (unat n) (xs1 @ xs2)), r2)))))"

text \<open>
  A run is a sequence of completed transactions of the two sides, in any order. It
  returns what each read consumed, in order, and the final ring.
\<close>

datatype 'e transaction =
    WriteT size_t bool "'e list"
  | ReadT size_t bool commit

fun run_transactions ::
  "'e transaction list \<Rightarrow> 'e AudioRingBase \<Rightarrow>
     client_error + ('e list option list \<times> 'e AudioRingBase)" where
  "run_transactions [] r = Inr ([], r)"
| "run_transactions (WriteT requested maxAvailable xs # ts) r =
     (case write_transaction requested maxAvailable xs r of
        Inl e \<Rightarrow> Inl e
      | Inr r1 \<Rightarrow> run_transactions ts r1)"
| "run_transactions (ReadT requested maxAvailable c # ts) r =
     (case read_transaction requested maxAvailable c r of
        Inl e \<Rightarrow> Inl e
      | Inr (res, r1) \<Rightarrow>
         (case run_transactions ts r1 of
            Inl e \<Rightarrow> Inl e
          | Inr (rs, r2) \<Rightarrow> Inr (res # rs, r2)))"

text \<open>The samples the writes of a run commit, and the samples its reads consumed.\<close>

fun written :: "'e transaction list \<Rightarrow> 'e list" where
  "written [] = []"
| "written (WriteT requested maxAvailable xs # ts) = xs @ written ts"
| "written (ReadT requested maxAvailable c # ts) = written ts"

fun consumed :: "'e list option list \<Rightarrow> 'e list" where
  "consumed [] = []"
| "consumed (None # rs) = consumed rs"
| "consumed (Some xs # rs) = xs @ consumed rs"

subsection \<open>The ring's invariant and its contents\<close>

text \<open>
  What the operations maintain: the array is non-empty and shorter than \<open>2 ^ 63\<close>, the read
  pointer is inside it, at most \<open>size()\<close> samples are buffered, the write pointer is
  \<open>samples_in_buffer\<close> places after the read pointer (modulo the size), a pending write
  fits the free space and a pending read fits the buffered samples.
\<close>

definition ring_inv :: "'e AudioRingBase \<Rightarrow> bool" where
  "ring_inv r \<longleftrightarrow>
     0 < length (data_provider r) \<and> length (data_provider r) < 2 ^ 63 \<and>
     unat (read_pointer r) < length (data_provider r) \<and>
     unat (samples_in_buffer r) \<le> length (data_provider r) \<and>
     unat (write_pointer r) =
       (unat (read_pointer r) + unat (samples_in_buffer r)) mod length (data_provider r) \<and>
     unat (pending_write_size r) + unat (samples_in_buffer r) \<le> length (data_provider r) \<and>
     unat (pending_read_size r) \<le> unat (samples_in_buffer r)"

text \<open>The buffered samples, oldest first.\<close>

definition contents :: "'e AudioRingBase \<Rightarrow> 'e list" where
  "contents r =
     map (\<lambda>i. data_provider r ! ((unat (read_pointer r) + i) mod length (data_provider r)))
       [0..<unat (samples_in_buffer r)]"

text \<open>
  Any sequence of calls of the ring's interface, each on the result of the one before.
  \<open>ClientStore\<close> is the client writing samples through pointers it holds: the array
  changes, its length does not.
\<close>

datatype 'e call =
    BeginWrite size_t bool
  | EndWrite size_t
  | EndWriteAll
  | BeginRead size_t bool
  | EndRead size_t
  | EndReadAll
  | ClientStore "'e list"

fun call_step :: "'e call \<Rightarrow> 'e AudioRingBase \<Rightarrow> error + 'e AudioRingBase" where
  "call_step (BeginWrite requested maxAvailable) r =
     (case beginWrite requested maxAvailable r of Inl e \<Rightarrow> Inl e | Inr (regions, r1) \<Rightarrow> Inr r1)"
| "call_step (EndWrite amount) r = endWrite amount r"
| "call_step EndWriteAll r = endWrite_all r"
| "call_step (BeginRead requested maxAvailable) r =
     (case beginRead requested maxAvailable r of Inl e \<Rightarrow> Inl e | Inr (regions, r1) \<Rightarrow> Inr r1)"
| "call_step (EndRead amount) r = endRead amount r"
| "call_step EndReadAll r = endRead_all r"
| "call_step (ClientStore d) r =
     (if length d = length (data_provider r) then Inr (r\<lparr>data_provider := d\<rparr>)
      else Inl AssertionFailed)"

fun run_calls :: "'e call list \<Rightarrow> 'e AudioRingBase \<Rightarrow> error + 'e AudioRingBase" where
  "run_calls [] r = Inr r"
| "run_calls (c # cs) r =
     (case call_step c r of Inl e \<Rightarrow> Inl e | Inr r1 \<Rightarrow> run_calls cs r1)"

text \<open>Two list functions used to describe the array: a block store and a cyclic read.\<close>

definition store1 :: "nat \<Rightarrow> 'e list \<Rightarrow> 'e list \<Rightarrow> 'e list" where
  "store1 k xs d = take k d @ xs @ drop (k + length xs) d"

definition view :: "'e list \<Rightarrow> nat \<Rightarrow> nat \<Rightarrow> 'e list" where
  "view d rp n = map (\<lambda>i. d ! ((rp + i) mod length d)) [0..<n]"

section \<open>Global effects (include/synthizer/effects/global\_effect.hpp)\<close>

text \<open>
  \<^verbatim>\<open>unsigned int\<close> is a 32-bit word. A \<^verbatim>\<open>float\<close> buffer is a function from the element
  index to the sample; the sample type is left open, the code only needs its \<open>0\<close>.
\<close>

type_synonym uint = "32 word"

type_synonym 's buffer = "nat \<Rightarrow> 's"

text \<open>
  The fields of \<^verbatim>\<open>GlobalEffect\<close>. \<open>biquad_filter\<close> is the \<^verbatim>\<open>shared_ptr\<close> (\<open>None\<close>:
  \<^verbatim>\<open>nullptr\<close>) with the state of the filter it owns; \<open>derived\<close> is the state of the
  base classes and of the concrete effect, properties included.
\<close>

record ('s, 'f, 'x) GlobalEffect =
  input_buffer :: "'s buffer"
  channels :: uint
  time_in_blocks :: uint
  last_channels :: uint
  biquad_filter :: "'f option"
  derived :: 'x

text \<open>
  What \<^verbatim>\<open>run\<close> uses from other files of the repository: the constants of \<^verbatim>\<open>config.hpp\<close>,
  \<^verbatim>\<open>createBiquadFilter\<close> and the methods of \<^verbatim>\<open>BiquadFilter\<close> (biquad.hpp), the property
  accessors \<^verbatim>\<open>acquireFilter\<close> (\<open>Some cfg\<close> when the filter property changed) and
  \<^verbatim>\<open>getGain\<close> (with its cast to \<^verbatim>\<open>float\<close>), and the virtual \<^verbatim>\<open>runEffect\<close> of the concrete
  effect, which gets the input bus and the destination as \<^verbatim>\<open>float *\<close> and may write
  both. \<^verbatim>\<open>processBlock(in, out, add)\<close> returns the output buffer.
\<close>

record ('s, 'f, 'x, 'c) effect_env =
  BLOCK_SIZE :: uint
  MAX_CHANNELS :: uint
  createBiquadFilter :: "uint \<Rightarrow> 'f option"
  acquireFilter :: "'x \<Rightarrow> 'c option \<times> 'x"
  configure :: "'f \<Rightarrow> 'c \<Rightarrow> 'f"
  processBlock :: "'f \<Rightarrow> 's buffer \<Rightarrow> 's buffer \<Rightarrow> bool \<Rightarrow> 'f \<times> 's buffer"
  runEffect ::
    "'x \<Rightarrow> uint \<Rightarrow> uint \<Rightarrow> 's buffer \<Rightarrow> uint \<Rightarrow> 's buffer \<Rightarrow> 's \<Rightarrow> 'x \<times> 's buffer \<times> 's buffer"
  getGain :: "'x \<Rightarrow> 's"

datatype effect_error = FillOutOfBounds

text \<open>
  \<^verbatim>\<open>std::fill(first, last, 0.0f)\<close> on the elements \<open>0 ..< k\<close> of a buffer.
\<close>

definition fill_zero :: "nat \<Rightarrow> ('s::zero) buffer \<Rightarrow> 's buffer" where
  "fill_zero k buf = (\<lambda>i. if i < k then 0 else buf i)"

text \<open>
  \<^verbatim>\<open>GlobalEffect::run(channels, destination)\<close>. The input buffer is a
  \<^verbatim>\<open>std::array<float, BLOCK_SIZE * MAX_CHANNELS>\<close>; a fill that ends beyond it is an
  error. The result is the effect and the destination after the call.
\<close>

definition run ::
  "('s::zero, 'f, 'x, 'c) effect_env \<Rightarrow> uint \<Rightarrow> 's buffer \<Rightarrow> ('s, 'f, 'x) GlobalEffect \<Rightarrow>
     effect_error + (('s, 'f, 'x) GlobalEffect \<times> 's buffer)" where
  "run env out_channels destination e =
     (let filter1 =
            (if (biquad_filter e = None \<or> channels e \<noteq> last_channels e) \<and> channels e \<noteq> 0
             then createBiquadFilter env (channels e)
             else biquad_filter e);
          (filter2, derived1, input1) =
            (case filter1 of
               None \<Rightarrow> (None, derived e, input_buffer e)
             | Some f \<Rightarrow>
                 let (cfg, d1) = acquireFilter env (derived e);
                     f1 = (case cfg of Some biquad_cfg \<Rightarrow> configure env f biquad_cfg | None \<Rightarrow> f);
                     (f2, buf) = processBlock env f1 (input_buffer e) (input_buffer e) False
                 in (Some f2, d1, buf));
          (derived2, input2, destination') =
            runEffect env derived1 (time_in_blocks e) (channels e) input1
              out_channels destination (getGain env derived1);
          k = unat (channels e * BLOCK_SIZE env)
      in if unat (BLOCK_SIZE env) * unat (MAX_CHANNELS env) < k then Inl FillOutOfBounds
         else Inr (e\<lparr>input_buffer := fill_zero k input2,
                     last_channels := channels e,
                     biquad_filter := filter2,
                     derived := derived2,
                     time_in_blocks := time_in_blocks e + 1\<rparr>,
                   destination'))"

section \<open>The C API of filter design (src/filter\_properties.cpp)\<close>

text \<open>
  A \<^verbatim>\<open>double\<close> is a value of an open type \<open>'d\<close> with the constants \<open>0\<close> and \<open>1\<close> and a
  division; no law of arithmetic is assumed of it.

  \<^verbatim>\<open>BiquadFilterDef\<close> (filter\_design.hpp) is read by \<^verbatim>\<open>convertBiquadDef\<close> at
  \<^verbatim>\<open>num_coefs[0..2]\<close>, \<^verbatim>\<open>den_coefs[0..1]\<close> and \<^verbatim>\<open>gain\<close>; \<^verbatim>\<open>syz_BiquadConfig\<close>
  (synthizer.h) is written at its six fields.
\<close>

record 'd BiquadFilterDef =
  num_coefs :: "'d list"
  den_coefs :: "'d list"
  gain :: 'd

record 'd syz_BiquadConfig =
  b0 :: 'd
  b1 :: 'd
  b2 :: 'd
  a1 :: 'd
  a2 :: 'd
  gain :: 'd

type_synonym syz_ErrorCode = int

definition convertBiquadDef :: "'d BiquadFilterDef \<Rightarrow> 'd syz_BiquadConfig" where
  "convertBiquadDef def =
     \<lparr>b0 = num_coefs def ! 0,
      b1 = num_coefs def ! 1,
      b2 = num_coefs def ! 2,
      a1 = den_coefs def ! 0,
      a2 = den_coefs def ! 1,
      gain = BiquadFilterDef.gain def\<rparr>"

text \<open>
  What the functions use from other files of the repository: \<^verbatim>\<open>config::SR\<close> (here
  already converted to \<^verbatim>\<open>double\<close>); the macros \<^verbatim>\<open>SYZ_PROLOGUE\<close> and \<^verbatim>\<open>SYZ_EPILOGUE\<close> of c\_api.hpp,
  which enclose the body: \<open>prologue\<close> is \<open>Some x\<close> when the prologue raises \<open>x\<close> instead of
  entering the body, and \<open>epilogue x\<close> is the code the handlers return for an exception
  \<open>x\<close>; and the three designers of filter\_design.hpp, which return a definition or raise.
\<close>

record ('d, 'x) capi_env =
  SR :: 'd
  prologue :: "'x option"
  epilogue :: "'x \<Rightarrow> syz_ErrorCode"
  designAudioEqLowpass :: "'d \<Rightarrow> 'd \<Rightarrow> 'x + 'd BiquadFilterDef"
  designAudioEqHighpass :: "'d \<Rightarrow> 'd \<Rightarrow> 'x + 'd BiquadFilterDef"
  designAudioEqBandpass :: "'d \<Rightarrow> 'd \<Rightarrow> 'x + 'd BiquadFilterDef"

text \<open>
  Each function takes the value \<^verbatim>\<open>*filter\<close> holds before the call (\<open>filter'\<close>) and
  returns the code together with the value it holds after. \<^verbatim>\<open>syz_BiquadConfig()\<close> is the value-initialised
  struct: every field \<open>0\<close>.
\<close>

definition syz_biquadDesignIdentity ::
  "('d::{zero,one}, 'x) capi_env \<Rightarrow> 'd syz_BiquadConfig \<Rightarrow> syz_ErrorCode \<times> 'd syz_BiquadConfig" where
  "syz_biquadDesignIdentity env filter' =
     (case prologue env of
        Some x \<Rightarrow> (epilogue env x, filter')
      | None \<Rightarrow>
          let filter1 = \<lparr>b0 = 0, b1 = 0, b2 = 0, a1 = 0, a2 = 0, gain = 0\<rparr>;
              filter2 = filter1\<lparr>b0 := 1\<rparr>;
              filter3 = filter2\<lparr>gain := 1\<rparr>
          in (0, filter3))"

definition syz_biquadDesignLowpass ::
  "('d::inverse, 'x) capi_env \<Rightarrow> 'd syz_BiquadConfig \<Rightarrow> 'd \<Rightarrow> 'd \<Rightarrow>
     syz_ErrorCode \<times> 'd syz_BiquadConfig" where
  "syz_biquadDesignLowpass env filter' frequency q =
     (case prologue env of
        Some x \<Rightarrow> (epilogue env x, filter')
      | None \<Rightarrow>
         (case designAudioEqLowpass env (frequency / SR env) q of
            Inl x \<Rightarrow> (epilogue env x, filter')
          | Inr def \<Rightarrow> (0, convertBiquadDef def)))"

definition syz_biquadDesignHighpass ::
  "('d::inverse, 'x) capi_env \<Rightarrow> 'd syz_BiquadConfig \<Rightarrow> 'd \<Rightarrow> 'd \<Rightarrow>
     syz_ErrorCode \<times> 'd syz_BiquadConfig" where
  "syz_biquadDesignHighpass env filter' frequency q =
     (case prologue env of
        Some x \<Rightarrow> (epilogue env x, filter')
      | None \<Rightarrow>
         (case designAudioEqHighpass env (frequency / SR env) q of
            Inl x \<Rightarrow> (epilogue env x, filter')
          | Inr def \<Rightarrow> (0, convertBiquadDef def)))"

definition syz_biquadDesignBandpass ::
  "('d::inverse, 'x) capi_env \<Rightarrow> 'd syz_BiquadConfig \<Rightarrow> 'd \<Rightarrow> 'd \<Rightarrow>
     syz_ErrorCode \<times> 'd syz_BiquadConfig" where
  "syz_biquadDesignBandpass env filter' frequency bw =
     (case prologue env of
        Some x \<Rightarrow> (epilogue env x, filter')
      | None \<Rightarrow>
         (case designAudioEqBandpass env (frequency / SR env) bw of
            Inl x \<Rightarrow> (epilogue env x, filter')
          | Inr def \<Rightarrow> (0, convertBiquadDef def)))"

section \<open>Properties of the audio ring\<close>

subsection \<open>Cyclic indexing of a list\<close>


lemma mod_wrap_low: "(a::nat) < n \<Longrightarrow> a mod n = a" by simp

lemma mod_wrap_high: "n \<le> (a::nat) \<Longrightarrow> a < 2 * n \<Longrightarrow> a mod n = a - n"
  by (metis le_add_diff_inverse2 add_diff_cancel_right' add_less_cancel_right mod_add_self2 mod_less mult_2)

lemma length_store1: "k + length xs \<le> length d \<Longrightarrow> length (store1 k xs d) = length d"
  by (simp add: store1_def)

lemma nth_store1:
  "k + length xs \<le> length d \<Longrightarrow> j < length d \<Longrightarrow>
   store1 k xs d ! j = (if k \<le> j \<and> j < k + length xs then xs ! (j - k) else d ! j)"
  by (auto simp: store1_def nth_append min_def)

lemma ring_store_nth:
  fixes d :: "'e list"
  assumes N: "length d = N" and wp: "wp < N" and l1: "l1 \<le> N - wp"
    and wrap: "l1 < length xs \<longrightarrow> l1 = N - wp" and len: "length xs \<le> N"
    and d2: "d2 = store1 0 (drop l1 xs) (store1 wp (take l1 xs) d)"
  shows "length d2 = N"
    and "\<And>i. i < length xs \<Longrightarrow> d2 ! ((wp + i) mod N) = xs ! i"
    and "\<And>j. j < N \<Longrightarrow> (\<forall>i<length xs. (wp + i) mod N \<noteq> j) \<Longrightarrow> d2 ! j = d ! j"
proof -
  let ?d1 = "store1 wp (take l1 xs) d"
  have b1: "wp + length (take l1 xs) \<le> length d" using N l1 wp by simp
  have len1: "length ?d1 = N" using length_store1[OF b1] N by simp
  have b2: "0 + length (drop l1 xs) \<le> length ?d1" using len1 len by simp
  show "length d2 = N" using length_store1[OF b2] len1 d2 by simp
  have nth2: "\<And>j. j < N \<Longrightarrow> d2 ! j = (if j < length xs - l1 then xs ! (l1 + j) else ?d1 ! j)"
    using nth_store1[OF b2] len1 d2 by simp
  have nth1: "\<And>j. j < N \<Longrightarrow> ?d1 ! j = (if wp \<le> j \<and> j < wp + min l1 (length xs) then xs ! (j - wp) else d ! j)"
    using nth_store1[OF b1] N by (auto simp: min_def)
  show "d2 ! ((wp + i) mod N) = xs ! i" if i: "i < length xs" for i
  proof (cases "i < l1")
    case True
    then have lt: "wp + i < N" using l1 by simp
    then have m: "(wp + i) mod N = wp + i" by simp
    have nw: "\<not> wp + i < length xs - l1"
    proof (cases "l1 < length xs")
      case True
      then have "l1 = N - wp" using wrap by blast
      then show ?thesis using len wp by simp
    next
      case False
      then show ?thesis by simp
    qed
    show ?thesis using m lt nw True i nth2[of "wp + i"] nth1[of "wp + i"] by simp
  next
    case False
    then have "l1 < length xs" using i by simp
    then have e: "l1 = N - wp" using wrap by blast
    have ge: "N \<le> wp + i" using False e by simp
    have lt: "wp + i < 2 * N" using i len wp by simp
    have m: "(wp + i) mod N = i - l1" using mod_wrap_high[OF ge lt] e wp by simp
    have "i - l1 < N" using i len by simp
    moreover have "i - l1 < length xs - l1" using i False by simp
    ultimately show ?thesis using nth2[of "i - l1"] m False by simp
  qed
  show "d2 ! j = d ! j" if j: "j < N" and free: "\<forall>i<length xs. (wp + i) mod N \<noteq> j" for j
  proof -
    have a: "\<not> j < length xs - l1"
    proof
      assume c: "j < length xs - l1"
      then have "l1 < length xs" by simp
      then have e: "l1 = N - wp" using wrap by blast
      have i: "l1 + j < length xs" using c by simp
      have ge: "N \<le> wp + (l1 + j)" using e wp by simp
      have lt: "wp + (l1 + j) < 2 * N" using i len wp by simp
      have "(wp + (l1 + j)) mod N = j" using mod_wrap_high[OF ge lt] e wp by simp
      with free i show False by blast
    qed
    have b: "\<not> (wp \<le> j \<and> j < wp + min l1 (length xs))"
    proof
      assume c: "wp \<le> j \<and> j < wp + min l1 (length xs)"
      then have i: "j - wp < length xs" by arith
      have "(wp + (j - wp)) mod N = j" using c j by simp
      with free i show False by blast
    qed
    show ?thesis using nth2[OF j] nth1[OF j] a b by simp
  qed
qed

lemma mod_distinct:
  fixes N :: nat
  assumes "i < s" and "s + k < N"
  shows "(rp + i) mod N \<noteq> (rp + s + k) mod N"
proof
  assume e: "(rp + i) mod N = (rp + s + k) mod N"
  have le: "rp + i \<le> rp + s + k" using assms by simp
  have "N dvd (rp + s + k) - (rp + i)"
    using e mod_eq_dvd_iff_nat[OF le, of N] by metis
  moreover have "(rp + s + k) - (rp + i) = s + k - i" by simp
  ultimately have "N dvd s + k - i" by simp
  moreover have "0 < s + k - i" "s + k - i < N" using assms by simp_all
  ultimately show False using nat_dvd_not_less by blast
qed


lemma length_view: "length (view d rp n) = n"
  by (simp add: view_def)

lemma nth_view: "i < n \<Longrightarrow> view d rp n ! i = d ! ((rp + i) mod length d)"
  by (simp add: view_def)

lemma view_take: "n \<le> s \<Longrightarrow> take n (view d rp s) = view d rp n"
  by (simp add: view_def take_map)

lemma view_drop: "n \<le> s \<Longrightarrow> drop n (view d rp s) = view d ((rp + n) mod length d) (s - n)"
proof (rule nth_equalityI)
  show "length (drop n (view d rp s)) = length (view d ((rp + n) mod length d) (s - n))"
    by (simp add: length_view)
next
  fix i assume "i < length (drop n (view d rp s))"
  then have i: "i < s - n" by (simp add: length_view)
  have "((rp + n) mod length d + i) mod length d = (rp + (n + i)) mod length d"
    by (simp add: mod_add_left_eq add.assoc)
  then show "drop n (view d rp s) ! i = view d ((rp + n) mod length d) (s - n) ! i"
    using i by (simp add: length_view nth_view)
qed

lemma view_store:
  fixes d :: "'e list"
  assumes N: "length d = N" and wp: "wp = (rp + s) mod N" and pos: "0 < N"
    and l1: "l1 \<le> N - wp"
    and wrap: "l1 < length xs \<longrightarrow> l1 = N - wp" and len: "s + length xs \<le> N"
    and d2: "d2 = store1 0 (drop l1 xs) (store1 wp (take l1 xs) d)"
  shows "length d2 = N" and "view d2 rp (s + length xs) = view d rp s @ xs"
proof -
  have wpN: "wp < N" using wp pos by simp
  have lenN: "length xs \<le> N" using len by simp
  note st = ring_store_nth[OF N wpN l1 wrap lenN d2]
  show L: "length d2 = N" by (rule st(1))
  have wpk: "(wp + k) mod N = (rp + s + k) mod N" for k
    using wp by (simp add: mod_add_left_eq)
  show "view d2 rp (s + length xs) = view d rp s @ xs"
  proof (rule nth_equalityI)
    show "length (view d2 rp (s + length xs)) = length (view d rp s @ xs)"
      by (simp add: length_view)
  next
    fix i assume "i < length (view d2 rp (s + length xs))"
    then have i: "i < s + length xs" by (simp add: length_view)
    show "view d2 rp (s + length xs) ! i = (view d rp s @ xs) ! i"
    proof (cases "i < s")
      case True
      have free: "\<forall>k<length xs. (wp + k) mod N \<noteq> (rp + i) mod N"
      proof (intro allI impI)
        fix k assume "k < length xs"
        then have "s + k < N" using len by simp
        from mod_distinct[OF True this, of rp] show "(wp + k) mod N \<noteq> (rp + i) mod N"
          using wpk[of k] by simp
      qed
      have "(rp + i) mod N < N" using pos by simp
      from st(3)[OF this free] show ?thesis
        using True i by (simp add: nth_view nth_append length_view N L)
    next
      case False
      then have k: "i - s < length xs" using i by simp
      have "(rp + i) mod N = (wp + (i - s)) mod N" using wpk[of "i - s"] False by simp
      with st(2)[OF k] show ?thesis
        using False i by (simp add: nth_view nth_append length_view L)
    qed
  qed
qed

lemma view_regions:
  fixes d :: "'e list"
  assumes N: "length d = N" and rp: "rp < N" and A: "A \<le> N"
    and l1: "l1 = min A (N - rp)"
  shows "take l1 (drop rp d) @ take (A - l1) d = view d rp A"
proof (rule nth_equalityI)
  have len1: "length (take l1 (drop rp d)) = l1" using N rp l1 by simp
  have len2: "length (take (A - l1) d) = A - l1" using N A by simp
  have "l1 \<le> A" using l1 by simp
  then have len: "length (take l1 (drop rp d) @ take (A - l1) d) = A"
    using len1 len2 by simp
  show "length (take l1 (drop rp d) @ take (A - l1) d) = length (view d rp A)"
    using len by (simp add: length_view)
  fix i assume "i < length (take l1 (drop rp d) @ take (A - l1) d)"
  then have i: "i < A" using len by simp
  show "(take l1 (drop rp d) @ take (A - l1) d) ! i = view d rp A ! i"
  proof (cases "i < l1")
    case True
    then have "rp + i < N" using l1 by arith
    then show ?thesis using True i len1 N by (simp add: nth_view nth_append)
  next
    case False
    then have e: "l1 = N - rp" using l1 i by (simp add: min_def split: if_splits)
    have ge: "N \<le> rp + i" using False e by simp
    have lt: "rp + i < 2 * N" using i A rp by simp
    have m: "(rp + i) mod N = i - l1" using mod_wrap_high[OF ge lt] e rp by simp
    show ?thesis using False i len1 N m by (simp add: nth_view nth_append)
  qed
qed


subsection \<open>The operations, one equation each\<close>


declare beginWrite_loop.simps [simp del]

lemma beginWrite_loop_blocks:
  "size_ring r - samples_in_buffer r < requested \<Longrightarrow> beginWrite_loop requested r = None"
proof (induction requested r rule: beginWrite_loop.induct)
  case (1 requested r)
  show ?case
  proof (cases "event_wait (log_op (Load memory_order_relaxed) r)")
    case None
    with "1.prems" show ?thesis by (subst beginWrite_loop.simps) (simp add: Let_def)
  next
    case (Some r2)
    then have eq: "size_ring r2 = size_ring r" "samples_in_buffer r2 = samples_in_buffer r"
      by (auto simp: event_wait_def log_op_def size_ring_def split: if_splits)
    have "beginWrite_loop requested r2 = None"
      using "1.IH"[OF refl refl _ Some] "1.prems" eq by simp
    with Some "1.prems" show ?thesis by (subst beginWrite_loop.simps) (simp add: Let_def)
  qed
qed

lemma beginWrite_loop_returns:
  "\<not> size_ring r - samples_in_buffer r < requested \<Longrightarrow>
   beginWrite_loop requested r =
     Some (size_ring r - samples_in_buffer r, log_op (Load memory_order_relaxed) r)"
  by (subst beginWrite_loop.simps) (simp add: Let_def)

lemma beginWrite_loop_eq:
  "beginWrite_loop requested r =
     (if size_ring r - samples_in_buffer r < requested then None
      else Some (size_ring r - samples_in_buffer r, log_op (Load memory_order_relaxed) r))"
  by (cases "size_ring r - samples_in_buffer r < requested")
     (simp_all add: beginWrite_loop_blocks beginWrite_loop_returns)

lemma unat_size_ring:
  "length (data_provider r) < 2 ^ 63 \<Longrightarrow> unat (size_ring r) = length (data_provider r)"
  by (simp add: size_ring_def unat_of_nat)

lemma size_ring_log_op [simp]: "size_ring (log_op x r) = size_ring r"
  by (simp add: size_ring_def log_op_def)

lemma beginWrite_eq:
  "beginWrite requested maxAvailable r =
     (if \<not> maxAvailable \<and> requested = 0 then Inl AssertionFailed
      else if size_ring r < requested then Inl AssertionFailed
      else if size_ring r - samples_in_buffer r < requested then Inl Blocked
      else let allocating = (if maxAvailable then size_ring r - samples_in_buffer r else requested);
               size1 = min (size_ring r - write_pointer r) allocating
           in Inr ((size1, Some (write_pointer r),
                    allocating - size1, if size1 = allocating then None else Some 0),
                   (log_op (Load memory_order_relaxed) r)\<lparr>pending_write_size := allocating\<rparr>))"
  by (auto simp: beginWrite_def beginWrite_loop_eq Let_def log_op_def size_ring_def not_le)

lemma beginRead_eq:
  "beginRead requested maxAvailable r =
     (if \<not> maxAvailable \<and> requested = 0 then Inl AssertionFailed
      else if size_ring r < requested then Inl AssertionFailed
      else if samples_in_buffer r = 0 \<or> (samples_in_buffer r < requested \<and> \<not> maxAvailable)
        then Inr ((0, None, 0, None), log_op (Load memory_order_acquire) r)
      else let allocating = (if maxAvailable then samples_in_buffer r else requested);
               size1 = min allocating (size_ring r - read_pointer r)
           in Inr ((size1, Some (read_pointer r),
                    allocating - size1, if size1 = allocating then None else Some 0),
                   (log_op (Load memory_order_acquire) r)\<lparr>pending_read_size := allocating\<rparr>))"
  by (auto simp: beginRead_def Let_def log_op_def size_ring_def not_le)


lemma beginWrite_inv:
  assumes inv: "ring_inv r"
    and res: "beginWrite requested maxAvailable r = Inr ((len1, ptr1, len2, ptr2), r1)"
  defines "N \<equiv> length (data_provider r)"
  shows "data_provider r1 = data_provider r"
    and "read_pointer r1 = read_pointer r"
    and "write_pointer r1 = write_pointer r"
    and "samples_in_buffer r1 = samples_in_buffer r"
    and "pending_read_size r1 = pending_read_size r"
    and "unat (pending_write_size r1) = unat len1 + unat len2"
    and "unat len1 + unat len2 + unat (samples_in_buffer r) \<le> N"
    and "ptr1 = Some (write_pointer r)"
    and "unat len1 = min (N - unat (write_pointer r)) (unat len1 + unat len2)"
    and "len2 \<noteq> 0 \<longrightarrow> ptr2 = Some 0"
    and "unat requested \<le> unat len1 + unat len2"
    and "\<not> maxAvailable \<longrightarrow> unat len1 + unat len2 = unat requested"
    and "maxAvailable \<longrightarrow> unat len1 + unat len2 = N - unat (samples_in_buffer r)"
proof -
  have N63: "N < 2 ^ 63" and pos: "0 < N" and sib: "unat (samples_in_buffer r) \<le> N"
    and wp: "unat (write_pointer r) < N"
    using inv by (simp_all add: ring_inv_def N_def)
  have sz: "unat (size_ring r) = N" using N63 by (simp add: unat_size_ring N_def)
  define A where "A = (if maxAvailable then size_ring r - samples_in_buffer r else requested)"
  have sle: "samples_in_buffer r \<le> size_ring r" using sib sz by (simp add: word_le_nat_alt)
  have wle: "write_pointer r \<le> size_ring r" using wp sz by (simp add: word_le_nat_alt)
  have av: "unat (size_ring r - samples_in_buffer r) = N - unat (samples_in_buffer r)"
    using unat_sub[OF sle] sz by simp
  have fw: "unat (size_ring r - write_pointer r) = N - unat (write_pointer r)"
    using unat_sub[OF wle] sz by simp
  from res have nb: "\<not> size_ring r - samples_in_buffer r < requested"
    by (auto simp: beginWrite_eq split: if_splits)
  from res have l1: "len1 = min (size_ring r - write_pointer r) A"
    and l2: "len2 = A - len1"
    and p1: "ptr1 = Some (write_pointer r)"
    and p2: "ptr2 = (if len1 = A then None else Some 0)"
    and r1: "r1 = (log_op (Load memory_order_relaxed) r)\<lparr>pending_write_size := A\<rparr>"
    by (auto simp: beginWrite_eq Let_def A_def split: if_splits)
  have l1A: "len1 \<le> A" using l1 by simp
  have ul2: "unat len2 = unat A - unat len1" using l2 unat_sub[OF l1A] by simp
  have sum: "unat len1 + unat len2 = unat A" using ul2 l1A by (simp add: word_le_nat_alt)
  have ul1: "unat len1 = min (N - unat (write_pointer r)) (unat A)"
    using l1 fw by (simp add: min_def word_le_nat_alt)
  have qA: "unat requested \<le> unat A"
    using nb by (simp add: A_def word_less_nat_alt)
  have AN: "unat A + unat (samples_in_buffer r) \<le> N"
    using nb av sib by (auto simp: A_def word_less_nat_alt)
  show "data_provider r1 = data_provider r" "read_pointer r1 = read_pointer r"
    "write_pointer r1 = write_pointer r" "samples_in_buffer r1 = samples_in_buffer r"
    "pending_read_size r1 = pending_read_size r"
    using r1 by (simp_all add: log_op_def)
  show "unat (pending_write_size r1) = unat len1 + unat len2" using r1 sum by simp
  show "unat len1 + unat len2 + unat (samples_in_buffer r) \<le> N" using sum AN by simp
  show "ptr1 = Some (write_pointer r)" by (rule p1)
  show "unat len1 = min (N - unat (write_pointer r)) (unat len1 + unat len2)" using ul1 sum by simp
  show "len2 \<noteq> 0 \<longrightarrow> ptr2 = Some 0" using p2 l2 by auto
  show "unat requested \<le> unat len1 + unat len2" using qA sum by simp
  show "\<not> maxAvailable \<longrightarrow> unat len1 + unat len2 = unat requested" using sum by (simp add: A_def)
  show "maxAvailable \<longrightarrow> unat len1 + unat len2 = N - unat (samples_in_buffer r)"
    using sum av by (simp add: A_def)
qed


lemma contents_view:
  "contents r = view (data_provider r) (unat (read_pointer r)) (unat (samples_in_buffer r))"
  by (simp add: contents_def view_def)

lemma store1_Nil [simp]: "store1 k [] d = d"
  by (simp add: store1_def)

lemma write_region_store1:
  "write_region p xs d = Inr d' \<Longrightarrow> xs \<noteq> [] \<longrightarrow> p = Some k \<Longrightarrow> d' = store1 (unat k) xs d"
  by (cases "xs = []") (auto simp: write_region_def store1_def split: if_splits option.splits)

lemma write_transaction_inv:
  assumes inv: "ring_inv r"
    and res: "write_transaction requested maxAvailable xs r = Inr r'"
  shows "ring_inv r'" and "contents r' = contents r @ xs"
proof -
  define N where "N = length (data_provider r)"
  from res obtain len1 ptr1 len2 ptr2 r1 where
    bw: "beginWrite requested maxAvailable r = Inr ((len1, ptr1, len2, ptr2), r1)"
    by (auto simp: write_transaction_def split: sum.splits)
  note f = beginWrite_inv[OF inv bw, folded N_def]
  from res bw obtain d1 d2 where
    fit: "length xs \<le> unat len1 + unat len2"
    and w1: "write_region ptr1 (take (unat len1) xs) (data_provider r1) = Inr d1"
    and w2: "write_region ptr2 (drop (unat len1) xs) d1 = Inr d2"
    and ew: "endWrite (of_nat (length xs)) (r1\<lparr>data_provider := d2\<rparr>) = Inr r'"
    by (auto simp: write_transaction_def not_less split: sum.splits if_splits)
  have N63: "N < 2 ^ 63" and pos: "0 < N" and sib: "unat (samples_in_buffer r) \<le> N"
    and rp: "unat (read_pointer r) < N"
    and wpe: "unat (write_pointer r) =
        (unat (read_pointer r) + unat (samples_in_buffer r)) mod N"
    and pr: "unat (pending_read_size r) \<le> unat (samples_in_buffer r)"
    using inv by (simp_all add: ring_inv_def N_def)
  have wp: "unat (write_pointer r) < N" using wpe pos by simp
  have d1: "d1 = store1 (unat (write_pointer r)) (take (unat len1) xs) (data_provider r)"
    using write_region_store1[OF w1, of "write_pointer r"] f(1,8) by simp
  have d2': "d2 = store1 (unat (0::size_t)) (drop (unat len1) xs) d1"
  proof (rule write_region_store1[OF w2])
    show "drop (unat len1) xs \<noteq> [] \<longrightarrow> ptr2 = Some 0"
    proof
      assume "drop (unat len1) xs \<noteq> []"
      then have "unat len1 < length xs" by simp
      with fit have "unat len2 \<noteq> 0" by simp
      then have "len2 \<noteq> 0" by (auto simp: unat_eq_0)
      with f(10) show "ptr2 = Some 0" by simp
    qed
  qed
  have d2: "d2 = store1 0 (drop (unat len1) xs)
      (store1 (unat (write_pointer r)) (take (unat len1) xs) (data_provider r))"
    using d2' d1 by simp
  have l1: "unat len1 \<le> N - unat (write_pointer r)" using f(9) by simp
  have wrap: "unat len1 < length xs \<longrightarrow> unat len1 = N - unat (write_pointer r)"
    using f(9) fit by (auto simp: min_def split: if_splits)
  have len: "unat (samples_in_buffer r) + length xs \<le> N" using fit f(7) by simp
  note vs = view_store[OF N_def[symmetric] wpe pos l1 wrap len d2]
  have xs64: "length xs < 2 ^ 64"
  proof -
    have "length xs \<le> N" using len by simp
    also have "N < 2 ^ 63" by (rule N63)
    also have "(2::nat) ^ 63 < 2 ^ 64" by simp
    finally show ?thesis .
  qed
  have ua: "unat (of_nat (length xs) :: size_t) = length xs"
    using xs64 by (simp add: unat_of_nat)
  have szl: "length (data_provider (r1\<lparr>data_provider := d2\<rparr>)) = N" using vs(1) by simp
  have sz: "unat (size_ring (r1\<lparr>data_provider := d2\<rparr>)) = N"
    using unat_size_ring[of "r1\<lparr>data_provider := d2\<rparr>"] szl N63 by simp
  have sznz: "size_ring (r1\<lparr>data_provider := d2\<rparr>) \<noteq> 0"
    using sz pos by (auto simp: unat_eq_0)
  have ok: "of_nat (length xs) \<le> pending_write_size r1"
    using ua f(6) fit by (simp add: word_le_nat_alt)
  from ew ok sznz have r': "r' = log_op (FetchAdd (of_nat (length xs)) memory_order_release)
       (r1\<lparr>data_provider := d2,
          write_pointer := (write_pointer r1 + of_nat (length xs))
                             mod size_ring (r1\<lparr>data_provider := d2\<rparr>),
          pending_write_size := pending_write_size r1 - of_nat (length xs),
          samples_in_buffer := samples_in_buffer r1 + of_nat (length xs)\<rparr>)"
    by (simp add: endWrite_def)
  have nov1: "unat (write_pointer r) + unat (of_nat (length xs) :: size_t) < 2 ^ 64"
  proof -
    have "unat (write_pointer r) + length xs < N + N" using wp len by simp
    also have "N + N < 2 ^ 63 + 2 ^ 63" using N63 by simp
    finally show ?thesis using ua by simp
  qed
  have uwp: "unat (write_pointer r + of_nat (length xs)) = unat (write_pointer r) + length xs"
    using nov1 ua by (simp add: unat_add_lem[THEN iffD1])
  have nov2: "unat (samples_in_buffer r) + unat (of_nat (length xs) :: size_t) < 2 ^ 64"
  proof -
    have "unat (samples_in_buffer r) + length xs \<le> N" by (rule len)
    also have "N < 2 ^ 63" by (rule N63)
    also have "(2::nat) ^ 63 < 2 ^ 64" by simp
    finally show ?thesis using ua by simp
  qed
  have usib: "unat (samples_in_buffer r + of_nat (length xs)) = unat (samples_in_buffer r) + length xs"
    using nov2 ua by (simp add: unat_add_lem[THEN iffD1])
  have upw: "unat (pending_write_size r1 - of_nat (length xs)) = unat (pending_write_size r1) - length xs"
    using unat_sub[OF ok] ua by simp
  have D: "data_provider r' = d2" and R: "read_pointer r' = read_pointer r"
    and S: "unat (samples_in_buffer r') = unat (samples_in_buffer r) + length xs"
    and W: "unat (write_pointer r') = (unat (write_pointer r) + length xs) mod N"
    and PW: "unat (pending_write_size r') = unat (pending_write_size r1) - length xs"
    and PR: "pending_read_size r' = pending_read_size r"
    using r' f(2,3,4,5) usib uwp upw sz by (simp_all add: log_op_def unat_mod)
  have W': "unat (write_pointer r') =
      (unat (read_pointer r) + (unat (samples_in_buffer r) + length xs)) mod N"
    using W wpe by (simp add: mod_add_left_eq add.assoc)
  show "ring_inv r'"
    unfolding ring_inv_def using D R S W' PW PR vs(1) pos N63 rp len pr f(6,7) fit by simp
  show "contents r' = contents r @ xs"
    using vs(2) D R S by (simp add: contents_view)
qed


lemma beginRead_inv:
  assumes inv: "ring_inv r"
    and res: "beginRead requested maxAvailable r = Inr ((len1, ptr1, len2, ptr2), r1)"
  defines "N \<equiv> length (data_provider r)"
  shows "data_provider r1 = data_provider r"
    and "read_pointer r1 = read_pointer r"
    and "write_pointer r1 = write_pointer r"
    and "samples_in_buffer r1 = samples_in_buffer r"
    and "pending_write_size r1 = pending_write_size r"
    and "ptr1 = None \<longrightarrow> pending_read_size r1 = pending_read_size r \<and> len1 = 0 \<and> len2 = 0"
    and "ptr1 \<noteq> None \<longrightarrow> ptr1 = Some (read_pointer r)
           \<and> unat (pending_read_size r1) = unat len1 + unat len2
           \<and> 0 < unat len1 + unat len2
           \<and> unat len1 + unat len2 \<le> unat (samples_in_buffer r)
           \<and> unat len1 = min (unat len1 + unat len2) (N - unat (read_pointer r))
           \<and> (len2 \<noteq> 0 \<longrightarrow> ptr2 = Some 0)
           \<and> (\<not> maxAvailable \<longrightarrow> unat len1 + unat len2 = unat requested)
           \<and> (maxAvailable \<longrightarrow> unat len1 + unat len2 = unat (samples_in_buffer r))"
proof -
  have N63: "N < 2 ^ 63" and pos: "0 < N" and sib: "unat (samples_in_buffer r) \<le> N"
    and rp: "unat (read_pointer r) < N"
    using inv by (simp_all add: ring_inv_def N_def)
  have sz: "unat (size_ring r) = N" using N63 by (simp add: unat_size_ring N_def)
  have rle: "read_pointer r \<le> size_ring r" using rp sz by (simp add: word_le_nat_alt)
  have fr: "unat (size_ring r - read_pointer r) = N - unat (read_pointer r)"
    using unat_sub[OF rle] sz by simp
  show "data_provider r1 = data_provider r" "read_pointer r1 = read_pointer r"
    "write_pointer r1 = write_pointer r" "samples_in_buffer r1 = samples_in_buffer r"
    "pending_write_size r1 = pending_write_size r"
    using res by (auto simp: beginRead_eq Let_def log_op_def split: if_splits)
  show "ptr1 = None \<longrightarrow> pending_read_size r1 = pending_read_size r \<and> len1 = 0 \<and> len2 = 0"
    using res by (auto simp: beginRead_eq Let_def log_op_def split: if_splits)
  show "ptr1 \<noteq> None \<longrightarrow> ptr1 = Some (read_pointer r)
           \<and> unat (pending_read_size r1) = unat len1 + unat len2
           \<and> 0 < unat len1 + unat len2
           \<and> unat len1 + unat len2 \<le> unat (samples_in_buffer r)
           \<and> unat len1 = min (unat len1 + unat len2) (N - unat (read_pointer r))
           \<and> (len2 \<noteq> 0 \<longrightarrow> ptr2 = Some 0)
           \<and> (\<not> maxAvailable \<longrightarrow> unat len1 + unat len2 = unat requested)
           \<and> (maxAvailable \<longrightarrow> unat len1 + unat len2 = unat (samples_in_buffer r))"
  proof
    assume nn: "ptr1 \<noteq> None"
    define A where "A = (if maxAvailable then samples_in_buffer r else requested)"
    from res nn have nz: "samples_in_buffer r \<noteq> 0"
      and enough: "\<not> (samples_in_buffer r < requested \<and> \<not> maxAvailable)"
      by (auto simp: beginRead_eq split: if_splits)
    from res nn have l1: "len1 = min A (size_ring r - read_pointer r)"
      and l2: "len2 = A - len1"
      and p1: "ptr1 = Some (read_pointer r)"
      and p2: "ptr2 = (if len1 = A then None else Some 0)"
      and r1: "r1 = (log_op (Load memory_order_acquire) r)\<lparr>pending_read_size := A\<rparr>"
      by (auto simp: beginRead_eq Let_def A_def split: if_splits)
    from res nn have req: "\<not> maxAvailable \<longrightarrow> requested \<noteq> 0"
      by (auto simp: beginRead_eq split: if_splits)
    have l1A: "len1 \<le> A" using l1 by simp
    have ul2: "unat len2 = unat A - unat len1" using l2 unat_sub[OF l1A] by simp
    have sum: "unat len1 + unat len2 = unat A" using ul2 l1A by (simp add: word_le_nat_alt)
    have ul1: "unat len1 = min (unat A) (N - unat (read_pointer r))"
      using l1 fr by (simp add: min_def word_le_nat_alt)
    have Apos: "0 < unat A" using nz req by (auto simp: A_def unat_gt_0)
    have Asib: "unat A \<le> unat (samples_in_buffer r)"
      using enough by (auto simp: A_def word_less_nat_alt)
    show "ptr1 = Some (read_pointer r)
           \<and> unat (pending_read_size r1) = unat len1 + unat len2
           \<and> 0 < unat len1 + unat len2
           \<and> unat len1 + unat len2 \<le> unat (samples_in_buffer r)
           \<and> unat len1 = min (unat len1 + unat len2) (N - unat (read_pointer r))
           \<and> (len2 \<noteq> 0 \<longrightarrow> ptr2 = Some 0)
           \<and> (\<not> maxAvailable \<longrightarrow> unat len1 + unat len2 = unat requested)
           \<and> (maxAvailable \<longrightarrow> unat len1 + unat len2 = unat (samples_in_buffer r))"
      using p1 r1 sum Apos Asib ul1 p2 l2 by (auto simp: A_def)
  qed
qed

lemma read_region_take:
  "read_region p len d = Inr xs \<Longrightarrow> len \<noteq> 0 \<longrightarrow> p = Some k \<Longrightarrow>
   xs = take (unat len) (drop (unat k) d)"
  by (cases "len = 0") (auto simp: read_region_def split: if_splits option.splits)

lemma endRead_inv:
  assumes inv: "ring_inv r" and res: "endRead n r = Inr r'"
  defines "N \<equiv> length (data_provider r)"
  shows "ring_inv r'" and "contents r' = drop (unat n) (contents r)"
    and "unat n \<le> unat (pending_read_size r)"
proof -
  have N63: "N < 2 ^ 63" and pos: "0 < N" and sib: "unat (samples_in_buffer r) \<le> N"
    and rp: "unat (read_pointer r) < N"
    and wpe: "unat (write_pointer r) =
        (unat (read_pointer r) + unat (samples_in_buffer r)) mod N"
    and pr: "unat (pending_read_size r) \<le> unat (samples_in_buffer r)"
    and pw: "unat (pending_write_size r) + unat (samples_in_buffer r) \<le> N"
    using inv by (simp_all add: ring_inv_def N_def)
  have sz: "unat (size_ring r) = N" using N63 by (simp add: unat_size_ring N_def)
  from res have ok: "n \<le> pending_read_size r" by (auto simp: endRead_def split: if_splits)
  then show np: "unat n \<le> unat (pending_read_size r)" by (simp add: word_le_nat_alt)
  have nsib: "n \<le> samples_in_buffer r" using np pr by (simp add: word_le_nat_alt)
  from res have r': "r' = event_signal (log_op (FetchSub n memory_order_release)
             (r\<lparr>read_pointer := (read_pointer r + n) mod size_ring r,
                pending_read_size := pending_read_size r - n,
                samples_in_buffer := samples_in_buffer r - n\<rparr>))"
    by (auto simp: endRead_def split: if_splits)
  have nov: "unat (read_pointer r) + unat n < 2 ^ 64"
  proof -
    have "unat (read_pointer r) + unat n < N + N" using rp np pr sib by simp
    also have "N + N < 2 ^ 63 + 2 ^ 63" using N63 by simp
    finally show ?thesis by simp
  qed
  have urp: "unat (read_pointer r + n) = unat (read_pointer r) + unat n"
    using nov by (simp add: unat_add_lem[THEN iffD1])
  have D: "data_provider r' = data_provider r"
    and R: "unat (read_pointer r') = (unat (read_pointer r) + unat n) mod N"
    and S: "unat (samples_in_buffer r') = unat (samples_in_buffer r) - unat n"
    and W: "write_pointer r' = write_pointer r"
    and PW: "pending_write_size r' = pending_write_size r"
    and PR: "unat (pending_read_size r') = unat (pending_read_size r) - unat n"
    using r' urp sz unat_sub[OF ok] unat_sub[OF nsib]
    by (simp_all add: log_op_def event_signal_def unat_mod)
  have W': "unat (write_pointer r') =
      (unat (read_pointer r') + unat (samples_in_buffer r')) mod N"
  proof -
    have "((unat (read_pointer r) + unat n) mod N + (unat (samples_in_buffer r) - unat n)) mod N
        = (unat (read_pointer r) + unat n + (unat (samples_in_buffer r) - unat n)) mod N"
      by (simp add: mod_add_left_eq)
    also have "unat (read_pointer r) + unat n + (unat (samples_in_buffer r) - unat n)
        = unat (read_pointer r) + unat (samples_in_buffer r)"
      using np pr by simp
    finally show ?thesis using W R S wpe by simp
  qed
  have i1: "unat (read_pointer r') < N" using R pos by simp
  have i2: "unat (samples_in_buffer r') \<le> N" using S sib by arith
  have i3: "unat (pending_write_size r') + unat (samples_in_buffer r') \<le> N"
    using PW S pw by arith
  have i4: "unat (pending_read_size r') \<le> unat (samples_in_buffer r')"
    using PR S pr by arith
  show "ring_inv r'"
    unfolding ring_inv_def using D W' i1 i2 i3 i4 pos N63 by (simp add: N_def)
  have "unat n \<le> unat (samples_in_buffer r)" using np pr by simp
  from view_drop[OF this, of "data_provider r" "unat (read_pointer r)"]
  show "contents r' = drop (unat n) (contents r)"
    using D R S by (simp add: contents_view N_def)
qed


lemma beginRead_ring_inv:
  assumes inv: "ring_inv r"
    and res: "beginRead requested maxAvailable r = Inr ((len1, ptr1, len2, ptr2), r1)"
  shows "ring_inv r1" and "contents r1 = contents r"
proof -
  note f = beginRead_inv[OF inv res]
  have "unat (pending_read_size r1) \<le> unat (samples_in_buffer r)"
  proof (cases "ptr1 = None")
    case True
    then show ?thesis using f(6) inv by (simp add: ring_inv_def)
  next
    case False
    then show ?thesis using f(7) by simp
  qed
  then show "ring_inv r1" using inv f(1-5) by (simp add: ring_inv_def)
  show "contents r1 = contents r" using f(1,2,4) by (simp add: contents_def)
qed

lemma read_transaction_inv:
  assumes inv: "ring_inv r"
    and res: "read_transaction requested maxAvailable c r = Inr (out, r')"
  shows "ring_inv r'"
    and "out = None \<longrightarrow> contents r' = contents r"
    and "\<forall>ys. out = Some ys \<longrightarrow> contents r = ys @ contents r'"
proof -
  define N where "N = length (data_provider r)"
  from res obtain len1 ptr1 len2 ptr2 r1 where
    br: "beginRead requested maxAvailable r = Inr ((len1, ptr1, len2, ptr2), r1)"
    by (auto simp: read_transaction_def split: sum.splits)
  note f = beginRead_inv[OF inv br, folded N_def]
  note inv1 = beginRead_ring_inv[OF inv br]
  show "ring_inv r'" "out = None \<longrightarrow> contents r' = contents r"
    "\<forall>ys. out = Some ys \<longrightarrow> contents r = ys @ contents r'"
  proof (atomize (full), cases "ptr1 = None")
    case True
    with res br have "out = None" "r' = r1" by (auto simp: read_transaction_def)
    then show "ring_inv r' \<and> (out = None \<longrightarrow> contents r' = contents r) \<and>
        (\<forall>ys. out = Some ys \<longrightarrow> contents r = ys @ contents r')"
      using inv1 by simp
  next
    case False
    with f(7) have p1: "ptr1 = Some (read_pointer r)"
      and pend: "unat (pending_read_size r1) = unat len1 + unat len2"
      and Asib: "unat len1 + unat len2 \<le> unat (samples_in_buffer r)"
      and ul1: "unat len1 = min (unat len1 + unat len2) (N - unat (read_pointer r))"
      and p2: "len2 \<noteq> 0 \<longrightarrow> ptr2 = Some 0"
      by simp_all
    define n where "n = (case c of CommitAll \<Rightarrow> pending_read_size r1 | CommitAmount m \<Rightarrow> m)"
    from res br False obtain xs1 xs2 where
      rr1: "read_region ptr1 len1 (data_provider r1) = Inr xs1"
      and rr2: "read_region ptr2 len2 (data_provider r1) = Inr xs2"
      and er: "endRead n r1 = Inr r'"
      and out': "out = Some (case c of CommitAll \<Rightarrow> xs1 @ xs2
                                    | CommitAmount m \<Rightarrow> take (unat m) (xs1 @ xs2))"
      by (cases c) (auto simp: read_transaction_def endRead_all_def n_def split: sum.splits if_splits)
    note e = endRead_inv[OF inv1(1) er]
    have N63: "N < 2 ^ 63" and sib: "unat (samples_in_buffer r) \<le> N"
      and rp: "unat (read_pointer r) < N"
      using inv by (simp_all add: ring_inv_def N_def)
    have x1: "xs1 = take (unat len1) (drop (unat (read_pointer r)) (data_provider r))"
      using read_region_take[OF rr1, of "read_pointer r"] p1 f(1) by simp
    have x2: "xs2 = take (unat len2) (drop (unat (0::size_t)) (data_provider r))"
      using read_region_take[OF rr2, of 0] p2 f(1) by simp
    have AN: "unat len1 + unat len2 \<le> N" using Asib sib by simp
    have l2: "unat len1 + unat len2 - unat len1 = unat len2" by simp
    have "xs1 @ xs2 = view (data_provider r) (unat (read_pointer r)) (unat len1 + unat len2)"
      using view_regions[OF N_def[symmetric] rp AN ul1] x1 x2 l2 by simp
    also have "\<dots> = take (unat len1 + unat len2) (contents r)"
      by (simp add: contents_view view_take[OF Asib])
    finally have region: "xs1 @ xs2 = take (unat len1 + unat len2) (contents r)" .
    have "length (contents r) = unat (samples_in_buffer r)" by (simp add: contents_def)
    then have "length (xs1 @ xs2) = unat len1 + unat len2"
      using region Asib by simp
    then have "take (unat (pending_read_size r1)) (xs1 @ xs2) = xs1 @ xs2"
      using pend by simp
    then have out: "out = Some (take (unat n) (xs1 @ xs2))"
      using out' by (cases c) (simp_all add: n_def)
    have "unat n \<le> unat len1 + unat len2" using e(3) pend by simp
    then have "take (unat n) (xs1 @ xs2) = take (unat n) (contents r)"
      using region by (simp add: min_def)
    then have "contents r = take (unat n) (xs1 @ xs2) @ contents r'"
      using e(2) inv1(2) by simp
    then show "ring_inv r' \<and> (out = None \<longrightarrow> contents r' = contents r) \<and>
        (\<forall>ys. out = Some ys \<longrightarrow> contents r = ys @ contents r')"
      using e(1) out by simp
  qed
qed

lemma run_transactions_inv:
  "ring_inv r \<Longrightarrow> run_transactions ts r = Inr (outs, r') \<Longrightarrow>
   ring_inv r' \<and> contents r @ written ts = consumed outs @ contents r'"
proof (induction ts arbitrary: r outs)
  case Nil
  then show ?case by simp
next
  case (Cons t ts)
  show ?case
  proof (cases t)
    case (WriteT requested maxAvailable xs)
    with Cons.prems(2) obtain r1 where
      w: "write_transaction requested maxAvailable xs r = Inr r1"
      and rest: "run_transactions ts r1 = Inr (outs, r')"
      by (auto split: sum.splits)
    note s = write_transaction_inv[OF Cons.prems(1) w]
    from Cons.IH[OF s(1) rest] s(2) WriteT show ?thesis by simp
  next
    case (ReadT requested maxAvailable c)
    with Cons.prems(2) obtain out r1 outs' where
      rd: "read_transaction requested maxAvailable c r = Inr (out, r1)"
      and rest: "run_transactions ts r1 = Inr (outs', r')"
      and outs: "outs = out # outs'"
      by (auto split: sum.splits)
    note s = read_transaction_inv[OF Cons.prems(1) rd]
    from Cons.IH[OF s(1) rest] have ih: "ring_inv r'"
      "contents r1 @ written ts = consumed outs' @ contents r'" by simp_all
    show ?thesis
    proof (cases out)
      case None
      with s(2) ih outs ReadT show ?thesis by simp
    next
      case (Some ys)
      with s(3) have "contents r = ys @ contents r1" by simp
      with ih outs ReadT Some show ?thesis by simp
    qed
  qed
qed

lemma AudioRingBase_init_inv:
  "0 < length d \<Longrightarrow> length d < 2 ^ 63 \<Longrightarrow> ring_inv (AudioRingBase_init d)"
  by (simp add: ring_inv_def AudioRingBase_init_def)

lemma AudioRingBase_init_contents: "contents (AudioRingBase_init d) = []"
  by (simp add: contents_def AudioRingBase_init_def)

lemma unat_less_2p63: "\<not> 2 ^ 63 \<le> (n::size_t) \<Longrightarrow> unat n < 2 ^ 63"
  by (simp add: word_le_nat_alt not_le)

lemma write_region_length: "write_region p xs d = Inr d' \<Longrightarrow> length d' = length d"
  by (auto simp: write_region_def split: if_splits option.splits)

lemma run_transactions_empty:
  "data_provider r = [] \<Longrightarrow> samples_in_buffer r = 0 \<Longrightarrow>
   run_transactions ts r = Inr (outs, r') \<Longrightarrow>
   written ts = [] \<and> consumed outs = [] \<and> contents r' = []"
proof (induction ts arbitrary: r outs)
  case Nil
  then show ?case by (simp add: contents_def)
next
  case (Cons t ts)
  have sz: "size_ring r = 0" using Cons.prems(1) by (simp add: size_ring_def)
  show ?case
  proof (cases t)
    case (WriteT requested maxAvailable xs)
    have "write_transaction requested maxAvailable xs r \<noteq> Inr r1" for r1
    proof
      assume w: "write_transaction requested maxAvailable xs r = Inr r1"
      then obtain len1 ptr1 len2 ptr2 r2 where
        bw: "beginWrite requested maxAvailable r = Inr ((len1, ptr1, len2, ptr2), r2)"
        by (auto simp: write_transaction_def split: sum.splits)
      from bw have dr2: "data_provider r2 = data_provider r"
        by (auto simp: beginWrite_eq Let_def log_op_def split: if_splits)
      from w bw obtain d1 d2 where
        w1: "write_region ptr1 (take (unat len1) xs) (data_provider r2) = Inr d1"
        and w2: "write_region ptr2 (drop (unat len1) xs) d1 = Inr d2"
        and ew: "endWrite (of_nat (length xs)) (r2\<lparr>data_provider := d2\<rparr>) = Inr r1"
        by (auto simp: write_transaction_def split: sum.splits if_splits)
      have "length d2 = length (data_provider r2)"
        using write_region_length[OF w1] write_region_length[OF w2] by simp
      then have "size_ring (r2\<lparr>data_provider := d2\<rparr>) = 0"
        using dr2 Cons.prems(1) by (simp add: size_ring_def)
      with ew show False by (simp add: endWrite_def split: if_splits)
    qed
    with Cons.prems(3) WriteT show ?thesis by (auto split: sum.splits)
  next
    case (ReadT requested maxAvailable c)
    with Cons.prems(3) obtain out r1 outs' where
      rd: "read_transaction requested maxAvailable c r = Inr (out, r1)"
      and rest: "run_transactions ts r1 = Inr (outs', r')"
      and outs: "outs = out # outs'"
      by (auto split: sum.splits)
    from rd Cons.prems(1,2) have "out = None" "data_provider r1 = []" "samples_in_buffer r1 = 0"
      by (auto simp: read_transaction_def beginRead_eq log_op_def split: sum.splits if_splits)
    with Cons.IH[OF _ _ rest] outs ReadT show ?thesis by simp
  qed
qed


subsection \<open>Every call keeps the invariant\<close>


lemma endWrite_inv:
  assumes inv: "ring_inv r" and res: "endWrite n r = Inr r'"
  shows "ring_inv r'"
proof -
  define N where "N = length (data_provider r)"
  have N63: "N < 2 ^ 63" and pos: "0 < N" and sib: "unat (samples_in_buffer r) \<le> N"
    and rp: "unat (read_pointer r) < N"
    and wpe: "unat (write_pointer r) =
        (unat (read_pointer r) + unat (samples_in_buffer r)) mod N"
    and pr: "unat (pending_read_size r) \<le> unat (samples_in_buffer r)"
    and pw: "unat (pending_write_size r) + unat (samples_in_buffer r) \<le> N"
    using inv by (simp_all add: ring_inv_def N_def)
  have wp: "unat (write_pointer r) < N" using wpe pos by simp
  have sz: "unat (size_ring r) = N" using N63 by (simp add: unat_size_ring N_def)
  from res have ok: "n \<le> pending_write_size r" by (auto simp: endWrite_def split: if_splits)
  then have np: "unat n \<le> unat (pending_write_size r)" by (simp add: word_le_nat_alt)
  from res have r': "r' = log_op (FetchAdd n memory_order_release)
             (r\<lparr>write_pointer := (write_pointer r + n) mod size_ring r,
                pending_write_size := pending_write_size r - n,
                samples_in_buffer := samples_in_buffer r + n\<rparr>)"
    by (auto simp: endWrite_def split: if_splits)
  have nov1: "unat (write_pointer r) + unat n < 2 ^ 64"
  proof -
    have "unat (write_pointer r) + unat n < N + N" using wp np pw by simp
    also have "N + N < 2 ^ 63 + 2 ^ 63" using N63 by simp
    finally show ?thesis by simp
  qed
  have nov2: "unat (samples_in_buffer r) + unat n < 2 ^ 64"
  proof -
    have "unat (samples_in_buffer r) + unat n \<le> N" using np pw by simp
    also have "N < 2 ^ 63" by (rule N63)
    also have "(2::nat) ^ 63 < 2 ^ 64" by simp
    finally show ?thesis by simp
  qed
  have uwp: "unat (write_pointer r + n) = unat (write_pointer r) + unat n"
    using nov1 by (simp add: unat_add_lem[THEN iffD1])
  have usib: "unat (samples_in_buffer r + n) = unat (samples_in_buffer r) + unat n"
    using nov2 by (simp add: unat_add_lem[THEN iffD1])
  have D: "data_provider r' = data_provider r"
    and R: "read_pointer r' = read_pointer r"
    and S: "unat (samples_in_buffer r') = unat (samples_in_buffer r) + unat n"
    and W: "unat (write_pointer r') = (unat (write_pointer r) + unat n) mod N"
    and PW: "unat (pending_write_size r') = unat (pending_write_size r) - unat n"
    and PR: "pending_read_size r' = pending_read_size r"
    using r' uwp usib sz unat_sub[OF ok] by (simp_all add: log_op_def unat_mod)
  have W': "unat (write_pointer r') =
      (unat (read_pointer r') + unat (samples_in_buffer r')) mod N"
    using W wpe R S by (simp add: mod_add_left_eq add.assoc)
  have i2: "unat (samples_in_buffer r') \<le> N" using S np pw by arith
  have i3: "unat (pending_write_size r') + unat (samples_in_buffer r') \<le> N"
    using PW S pw np by arith
  have i4: "unat (pending_read_size r') \<le> unat (samples_in_buffer r')"
    using PR S pr by simp
  show "ring_inv r'"
    unfolding ring_inv_def using D R W' rp i2 i3 i4 pos N63 by (simp add: N_def)
qed

lemma beginWrite_ring_inv:
  assumes inv: "ring_inv r"
    and res: "beginWrite requested maxAvailable r = Inr ((len1, ptr1, len2, ptr2), r1)"
  shows "ring_inv r1"
  using inv beginWrite_inv[OF inv res] by (simp add: ring_inv_def)

lemma call_step_inv:
  assumes inv: "ring_inv r" and res: "call_step c r = Inr r'"
  shows "ring_inv r'"
proof (cases c)
  case (BeginWrite requested maxAvailable)
  with res obtain regions where "beginWrite requested maxAvailable r = Inr (regions, r')"
    by (auto split: sum.splits)
  then show ?thesis using beginWrite_ring_inv[OF inv] by (cases regions) auto
next
  case (EndWrite amount)
  with res show ?thesis using endWrite_inv[OF inv] by simp
next
  case EndWriteAll
  with res show ?thesis using endWrite_inv[OF inv] by (simp add: endWrite_all_def)
next
  case (BeginRead requested maxAvailable)
  with res obtain regions where "beginRead requested maxAvailable r = Inr (regions, r')"
    by (auto split: sum.splits)
  then show ?thesis using beginRead_ring_inv(1)[OF inv] by (cases regions) auto
next
  case (EndRead amount)
  with res show ?thesis using endRead_inv(1)[OF inv] by simp
next
  case EndReadAll
  with res show ?thesis using endRead_inv(1)[OF inv] by (simp add: endRead_all_def)
next
  case (ClientStore d)
  with res inv show ?thesis by (auto simp: ring_inv_def split: if_splits)
qed

lemma run_calls_inv:
  "ring_inv r \<Longrightarrow> run_calls cs r = Inr r' \<Longrightarrow> ring_inv r'"
proof (induction cs arbitrary: r)
  case Nil
  then show ?case by simp
next
  case (Cons c cs)
  from Cons.prems(2) obtain r1 where s: "call_step c r = Inr r1" and rest: "run_calls cs r1 = Inr r'"
    by (auto split: sum.splits)
  from Cons.IH[OF call_step_inv[OF Cons.prems(1) s] rest] show ?case .
qed

lemma constructed_inv:
  fixes r0 :: "('e::zero) AudioRingBase"
  assumes "AllocatedAudioRing n = Inr r0 \<or> (InlineAudioRing n = Inr r0 \<and> n \<noteq> 0)"
  shows "ring_inv r0"
proof -
  from assms have r0: "r0 = AudioRingBase_init (replicate (unat n) 0)"
    and nb: "\<not> 2 ^ 63 \<le> n" and nz: "n \<noteq> 0"
    by (auto simp: AllocatedAudioRing_def InlineAudioRing_def split: if_splits)
  have n63: "unat n < 2 ^ 63" using nb by (rule unat_less_2p63)
  have "0 < unat n" using nz by (simp add: unat_gt_0)
  then show ?thesis using r0 n63 by (simp add: AudioRingBase_init_inv)
qed

subsection \<open>The claims about the ring\<close>

text \<open>
  C1. From construction on, through any sequence of completed write and read
  transactions, the samples the reads consumed are, in order, a prefix of the samples the
  writes committed: the committed samples are the consumed ones followed by what the ring
  still holds. A read that reports underflow consumes nothing.
\<close>

theorem ring_fifo:
  fixes r0 :: "('e::zero) AudioRingBase"
  assumes "AllocatedAudioRing n = Inr r0 \<or> InlineAudioRing n = Inr r0"
    and "run_transactions ts r0 = Inr (outs, r')"
  shows "written ts = consumed outs @ contents r' \<and> prefix (consumed outs) (written ts)"
proof -
  from assms(1) have r0: "r0 = AudioRingBase_init (replicate (unat n) 0)"
    and nb: "\<not> 2 ^ 63 \<le> n"
    by (auto simp: AllocatedAudioRing_def InlineAudioRing_def split: if_splits)
  have n63: "unat n < 2 ^ 63" using nb by (rule unat_less_2p63)
  have "written ts = consumed outs @ contents r'"
  proof (cases "unat n = 0")
    case True
    then have "data_provider r0 = []" "samples_in_buffer r0 = 0"
      using r0 by (simp_all add: AudioRingBase_init_def)
    from run_transactions_empty[OF this assms(2)] show ?thesis by simp
  next
    case False
    then have "ring_inv r0" using r0 n63 by (simp add: AudioRingBase_init_inv)
    from run_transactions_inv[OF this assms(2)]
    show ?thesis by (simp add: r0 AudioRingBase_init_contents)
  qed
  then show ?thesis by (metis prefixI)
qed

theorem ring_fifo_witness:
  "AllocatedAudioRing 4 = Inr (AudioRingBase_init [0, 0, 0, 0 :: int])
   \<and> run_transactions
        [WriteT 3 False [1, 2, 3], ReadT 2 False CommitAll, WriteT 3 False [4, 5, 6],
         ReadT 4 False CommitAll, ReadT 3 False CommitAll, WriteT 0 True [7],
         ReadT 4 True (CommitAmount 1)]
        (AudioRingBase_init [0, 0, 0, 0 :: int])
      = Inr ([Some [1, 2], Some [3, 4, 5, 6], None, Some [7]],
          \<lparr>data_provider = [5, 6, 7, 4], write_pointer = 3, read_pointer = 3,
           samples_in_buffer = 0, pending_write_size = 3, pending_read_size = 0,
           read_end_event = True,
           sync_log =
             [Load memory_order_relaxed, FetchAdd 3 memory_order_release,
              Load memory_order_acquire, FetchSub 2 memory_order_release, EventSignal,
              Load memory_order_relaxed, FetchAdd 3 memory_order_release,
              Load memory_order_acquire, FetchSub 4 memory_order_release, EventSignal,
              Load memory_order_acquire,
              Load memory_order_relaxed, FetchAdd 1 memory_order_release,
              Load memory_order_acquire, FetchSub 1 memory_order_release, EventSignal]\<rparr>)
   \<and> prefix (consumed [Some [1, 2], Some [3, 4, 5, 6], None, Some [7 :: int]])
        (written [WriteT 3 False [1, 2, 3], ReadT 2 False CommitAll, WriteT 3 False [4, 5, 6],
         ReadT 4 False CommitAll, ReadT 3 False CommitAll, WriteT 0 True [7],
         ReadT 4 True (CommitAmount 1)])"
proof -
  have h1: "AllocatedAudioRing 4 = Inr (AudioRingBase_init [0, 0, 0, 0 :: int])"
    by code_simp
  have h2: "run_transactions
        [WriteT 3 False [1, 2, 3], ReadT 2 False CommitAll, WriteT 3 False [4, 5, 6],
         ReadT 4 False CommitAll, ReadT 3 False CommitAll, WriteT 0 True [7],
         ReadT 4 True (CommitAmount 1)]
        (AudioRingBase_init [0, 0, 0, 0 :: int])
      = Inr ([Some [1, 2], Some [3, 4, 5, 6], None, Some [7]],
          \<lparr>data_provider = [5, 6, 7, 4], write_pointer = 3, read_pointer = 3,
           samples_in_buffer = 0, pending_write_size = 3, pending_read_size = 0,
           read_end_event = True,
           sync_log =
             [Load memory_order_relaxed, FetchAdd 3 memory_order_release,
              Load memory_order_acquire, FetchSub 2 memory_order_release, EventSignal,
              Load memory_order_relaxed, FetchAdd 3 memory_order_release,
              Load memory_order_acquire, FetchSub 4 memory_order_release, EventSignal,
              Load memory_order_acquire,
              Load memory_order_relaxed, FetchAdd 1 memory_order_release,
              Load memory_order_acquire, FetchSub 1 memory_order_release, EventSignal]\<rparr>)"
    by code_simp
  from ring_fifo[OF disjI1[OF h1] h2] h1 h2 show ?thesis by blast
qed

text \<open>
  C2. For every ring state and every request \<open>r\<close> with \<open>0 < r \<le> size()\<close>: if fewer than
  \<open>r\<close> samples are in the buffer, \<open>beginRead(r, false)\<close> returns
  \<open>(0, nullptr, 0, nullptr)\<close>; the call only loads the counter, so the read pointer, the
  sample counter, the pending read size and the array are as they were.
\<close>

theorem beginRead_underflow:
  assumes "0 < requested" and "requested \<le> size_ring r"
    and "samples_in_buffer r < requested"
  shows "beginRead requested False r
           = Inr ((0, None, 0, None), log_op (Load memory_order_acquire) r)
         \<and> read_pointer (log_op (Load memory_order_acquire) r) = read_pointer r
         \<and> samples_in_buffer (log_op (Load memory_order_acquire) r) = samples_in_buffer r
         \<and> pending_read_size (log_op (Load memory_order_acquire) r) = pending_read_size r
         \<and> data_provider (log_op (Load memory_order_acquire) r) = data_provider r"
  using assms by (simp add: beginRead_eq log_op_def word_greater_zero_iff)

theorem beginRead_underflow_witness:
  "0 < (2 :: size_t)
   \<and> 2 \<le> size_ring ((AudioRingBase_init [7, 0, 0, 0 :: int])
                       \<lparr>write_pointer := 1, samples_in_buffer := 1\<rparr>)
   \<and> samples_in_buffer ((AudioRingBase_init [7, 0, 0, 0 :: int])
                       \<lparr>write_pointer := 1, samples_in_buffer := 1\<rparr>) < 2
   \<and> beginRead 2 False ((AudioRingBase_init [7, 0, 0, 0 :: int])
                       \<lparr>write_pointer := 1, samples_in_buffer := 1\<rparr>)
       = Inr ((0, None, 0, None),
           \<lparr>data_provider = [7, 0, 0, 0], write_pointer = 1, read_pointer = 0,
            samples_in_buffer = 1, pending_write_size = 0, pending_read_size = 0,
            read_end_event = False, sync_log = [Load memory_order_acquire]\<rparr>)"
proof -
  let ?r = "(AudioRingBase_init [7, 0, 0, 0 :: int])\<lparr>write_pointer := 1, samples_in_buffer := 1\<rparr>"
  have h1: "0 < (2 :: size_t)" by simp
  have h2: "2 \<le> size_ring ?r" by (simp add: size_ring_def AudioRingBase_init_def)
  have h3: "samples_in_buffer ?r < 2" by (simp add: AudioRingBase_init_def)
  from beginRead_underflow[OF h1 h2 h3] h1 h2 h3 show ?thesis
    by (simp add: log_op_def AudioRingBase_init_def)
qed

text \<open>
  C3, as stated, has the decrement of the counter in \<open>endRead\<close> use acquire ordering. On a
  ring of four elements holding three samples with a pending read of two, \<open>endRead(2)\<close>
  performs \<^verbatim>\<open>fetch_sub(2, std::memory_order_release)\<close> and then signals the event; no
  \<^verbatim>\<open>fetch_sub\<close> with acquire ordering occurs.
\<close>

theorem endRead_acquire_counterexample:
  "endRead 2 ((AudioRingBase_init [1, 2, 3, 0 :: int])
       \<lparr>write_pointer := 3, samples_in_buffer := 3, pending_read_size := 2\<rparr>)
     = Inr \<lparr>data_provider = [1, 2, 3, 0], write_pointer = 3, read_pointer = 2,
            samples_in_buffer = 1, pending_write_size = 0, pending_read_size = 0,
            read_end_event = True,
            sync_log = [FetchSub 2 memory_order_release, EventSignal]\<rparr>
   \<and> FetchSub 2 memory_order_acquire
       \<notin> set [FetchSub 2 memory_order_release, EventSignal]"
  by (simp add: endRead_def AudioRingBase_init_def size_ring_def event_signal_def log_op_def)

text \<open>
  C3, amended. For every ring with a non-empty array and a pending read of size \<open>p\<close>, and
  every \<open>n \<le> p\<close>: \<open>endRead(n)\<close> sets the read pointer to \<open>(read_pointer + n) % size()\<close>,
  subtracts \<open>n\<close> from the counter with a \<^verbatim>\<open>fetch_sub\<close> of release ordering, subtracts \<open>n\<close>
  from the pending read size and then signals the read-end event; the array, the write
  pointer and the pending write size stay. The arithmetic is that of \<^verbatim>\<open>size_t\<close>; in a ring
  that satisfies the invariant nothing wraps: the read pointer advances by \<open>n\<close> modulo the
  size, the counter decreases by exactly \<open>n\<close>, and the first \<open>n\<close> buffered samples leave
  the ring.
\<close>

theorem endRead_effect:
  assumes "n \<le> pending_read_size r" and "size_ring r \<noteq> 0"
  shows "\<exists>r'. endRead n r = Inr r'
     \<and> read_pointer r' = (read_pointer r + n) mod size_ring r
     \<and> samples_in_buffer r' = samples_in_buffer r - n
     \<and> pending_read_size r' = pending_read_size r - n
     \<and> unat (pending_read_size r') = unat (pending_read_size r) - unat n
     \<and> read_end_event r'
     \<and> sync_log r' = sync_log r @ [FetchSub n memory_order_release, EventSignal]
     \<and> data_provider r' = data_provider r
     \<and> write_pointer r' = write_pointer r
     \<and> pending_write_size r' = pending_write_size r
     \<and> (ring_inv r \<longrightarrow>
           unat (read_pointer r') =
             (unat (read_pointer r) + unat n) mod length (data_provider r)
         \<and> unat n \<le> unat (samples_in_buffer r)
         \<and> unat (samples_in_buffer r') = unat (samples_in_buffer r) - unat n
         \<and> contents r' = drop (unat n) (contents r))"
proof -
  define r' where "r' = event_signal (log_op (FetchSub n memory_order_release)
             (r\<lparr>read_pointer := (read_pointer r + n) mod size_ring r,
                pending_read_size := pending_read_size r - n,
                samples_in_buffer := samples_in_buffer r - n\<rparr>))"
  have er: "endRead n r = Inr r'" using assms by (simp add: endRead_def r'_def)
  have up: "unat (pending_read_size r - n) = unat (pending_read_size r) - unat n"
    using unat_sub[OF assms(1)] .
  have fields: "read_pointer r' = (read_pointer r + n) mod size_ring r"
    "samples_in_buffer r' = samples_in_buffer r - n"
    "pending_read_size r' = pending_read_size r - n"
    "read_end_event r'"
    "sync_log r' = sync_log r @ [FetchSub n memory_order_release, EventSignal]"
    "data_provider r' = data_provider r"
    "write_pointer r' = write_pointer r"
    "pending_write_size r' = pending_write_size r"
    by (simp_all add: r'_def event_signal_def log_op_def)
  have nat: "unat (read_pointer r') =
             (unat (read_pointer r) + unat n) mod length (data_provider r)
         \<and> unat n \<le> unat (samples_in_buffer r)
         \<and> unat (samples_in_buffer r') = unat (samples_in_buffer r) - unat n
         \<and> contents r' = drop (unat n) (contents r)" if inv: "ring_inv r"
  proof -
    define N where "N = length (data_provider r)"
    have N63: "N < 2 ^ 63" and sib: "unat (samples_in_buffer r) \<le> N"
      and rp: "unat (read_pointer r) < N"
      and pr: "unat (pending_read_size r) \<le> unat (samples_in_buffer r)"
      using inv by (simp_all add: ring_inv_def N_def)
    have sz: "unat (size_ring r) = N" using N63 by (simp add: unat_size_ring N_def)
    have np: "unat n \<le> unat (pending_read_size r)" using assms(1) by (simp add: word_le_nat_alt)
    have ns: "unat n \<le> unat (samples_in_buffer r)" using np pr by simp
    then have nsw: "n \<le> samples_in_buffer r" by (simp add: word_le_nat_alt)
    have nov: "unat (read_pointer r) + unat n < 2 ^ 64"
    proof -
      have "unat (read_pointer r) + unat n < N + N" using rp ns sib by simp
      also have "N + N < 2 ^ 63 + 2 ^ 63" using N63 by simp
      finally show ?thesis by simp
    qed
    have urp: "unat (read_pointer r + n) = unat (read_pointer r) + unat n"
      using nov by (simp add: unat_add_lem[THEN iffD1])
    have a: "unat (read_pointer r') = (unat (read_pointer r) + unat n) mod N"
      using fields(1) urp sz by (simp add: unat_mod)
    have b: "unat (samples_in_buffer r') = unat (samples_in_buffer r) - unat n"
      using fields(2) unat_sub[OF nsw] by simp
    show ?thesis using a ns b endRead_inv(2)[OF inv er] by (simp add: N_def)
  qed
  show ?thesis using er fields up nat by auto
qed

theorem endRead_effect_witness:
  "(2 :: size_t) \<le> pending_read_size ((AudioRingBase_init [1, 2, 3, 0 :: int])
       \<lparr>write_pointer := 3, samples_in_buffer := 3, pending_read_size := 2\<rparr>)
   \<and> size_ring ((AudioRingBase_init [1, 2, 3, 0 :: int])
       \<lparr>write_pointer := 3, samples_in_buffer := 3, pending_read_size := 2\<rparr>) \<noteq> 0
   \<and> ring_inv ((AudioRingBase_init [1, 2, 3, 0 :: int])
       \<lparr>write_pointer := 3, samples_in_buffer := 3, pending_read_size := 2\<rparr>)
   \<and> (\<exists>r'. endRead 2 ((AudioRingBase_init [1, 2, 3, 0 :: int])
             \<lparr>write_pointer := 3, samples_in_buffer := 3, pending_read_size := 2\<rparr>) = Inr r'
          \<and> read_pointer r' = 2 \<and> samples_in_buffer r' = 1 \<and> pending_read_size r' = 0
          \<and> read_end_event r'
          \<and> sync_log r' = [FetchSub 2 memory_order_release, EventSignal]
          \<and> contents r' = [3])"
proof -
  let ?r = "(AudioRingBase_init [1, 2, 3, 0 :: int])
       \<lparr>write_pointer := 3, samples_in_buffer := 3, pending_read_size := 2\<rparr>"
  have h1: "(2 :: size_t) \<le> pending_read_size ?r" by (simp add: AudioRingBase_init_def)
  have h2: "size_ring ?r \<noteq> 0" by (simp add: size_ring_def AudioRingBase_init_def)
  have h3: "ring_inv ?r" by (simp add: ring_inv_def AudioRingBase_init_def)
  have c: "contents ?r = [1, 2, 3]" by code_simp
  from endRead_effect[OF h1 h2] obtain r' where
    "endRead 2 ?r = Inr r'" "read_pointer r' = (read_pointer ?r + 2) mod size_ring ?r"
    "samples_in_buffer r' = samples_in_buffer ?r - 2"
    "pending_read_size r' = pending_read_size ?r - 2"
    "read_end_event r'"
    "sync_log r' = sync_log ?r @ [FetchSub 2 memory_order_release, EventSignal]"
    "ring_inv ?r \<longrightarrow> contents r' = drop (unat (2::size_t)) (contents ?r)"
    by blast
  with h3 c have "endRead 2 ?r = Inr r'
          \<and> read_pointer r' = 2 \<and> samples_in_buffer r' = 1 \<and> pending_read_size r' = 0
          \<and> read_end_event r'
          \<and> sync_log r' = [FetchSub 2 memory_order_release, EventSignal]
          \<and> contents r' = [3]"
    by (simp add: size_ring_def AudioRingBase_init_def)
  with h1 h2 h3 show ?thesis by blast
qed

text \<open>
  C4. For every \<open>beginWrite(r, ma)\<close> that returns and every \<open>beginRead(r, ma)\<close> that does
  not report underflow: \<open>len1 + len2 = a\<close>, where \<open>a = r\<close> when \<open>ma\<close> is false and \<open>a\<close> is
  all the free space (write side) or all the buffered samples (read side) when \<open>ma\<close> is
  true; and \<open>len2 > 0\<close> exactly when \<open>a > size() - pointer\<close>, the pointer being the write
  (resp. read) pointer. This holds in the arithmetic of \<^verbatim>\<open>size_t\<close> in every state, and
  as stated on the natural numbers in every state that satisfies the invariant.
\<close>

theorem regions_split:
  "(beginWrite requested maxAvailable r = Inr ((len1, ptr1, len2, ptr2), r1) \<longrightarrow>
      (let a = (if maxAvailable then size_ring r - samples_in_buffer r else requested)
       in len1 + len2 = a
        \<and> (0 < len2 \<longleftrightarrow> size_ring r - write_pointer r < a)
        \<and> (ring_inv r \<longrightarrow>
              unat len1 + unat len2 = unat a
            \<and> unat a = (if maxAvailable
                        then length (data_provider r) - unat (samples_in_buffer r)
                        else unat requested)
            \<and> (0 < unat len2 \<longleftrightarrow>
                 length (data_provider r) - unat (write_pointer r) < unat a))))
 \<and> (beginRead requested maxAvailable r = Inr ((len1, ptr1, len2, ptr2), r1) \<and> ptr1 \<noteq> None \<longrightarrow>
      (let a = (if maxAvailable then samples_in_buffer r else requested)
       in len1 + len2 = a
        \<and> (0 < len2 \<longleftrightarrow> size_ring r - read_pointer r < a)
        \<and> (ring_inv r \<longrightarrow>
              unat len1 + unat len2 = unat a
            \<and> (0 < unat len2 \<longleftrightarrow>
                 length (data_provider r) - unat (read_pointer r) < unat a))))"
proof (intro conjI impI)
  assume bw: "beginWrite requested maxAvailable r = Inr ((len1, ptr1, len2, ptr2), r1)"
  define a where "a = (if maxAvailable then size_ring r - samples_in_buffer r else requested)"
  from bw have l1: "len1 = min (size_ring r - write_pointer r) a" and l2: "len2 = a - len1"
    by (auto simp: beginWrite_eq Let_def a_def split: if_splits)
  have sum: "len1 + len2 = a" using l2 by simp
  have wrap: "0 < len2 \<longleftrightarrow> size_ring r - write_pointer r < a"
    using l1 l2 by (auto simp: min_def word_greater_zero_iff not_le)
  have nat: "unat len1 + unat len2 = unat a
            \<and> unat a = (if maxAvailable
                        then length (data_provider r) - unat (samples_in_buffer r)
                        else unat requested)
            \<and> (0 < unat len2 \<longleftrightarrow>
                 length (data_provider r) - unat (write_pointer r) < unat a)" if inv: "ring_inv r"
  proof -
    note f = beginWrite_inv[OF inv bw]
    from bw have "pending_write_size r1 = a"
      by (auto simp: beginWrite_eq Let_def a_def split: if_splits)
    with f(6) have s: "unat len1 + unat len2 = unat a" by simp
    have v: "unat a = (if maxAvailable
                        then length (data_provider r) - unat (samples_in_buffer r)
                        else unat requested)"
      using s f(12,13) by (cases maxAvailable) simp_all
    have "unat len1 = min (length (data_provider r) - unat (write_pointer r)) (unat a)"
      using f(9) s by simp
    then have w: "0 < unat len2 \<longleftrightarrow>
                 length (data_provider r) - unat (write_pointer r) < unat a"
      using s by (auto simp: min_def split: if_splits)
    show ?thesis using s v w by simp
  qed
  show "let a = (if maxAvailable then size_ring r - samples_in_buffer r else requested)
       in len1 + len2 = a
        \<and> (0 < len2 \<longleftrightarrow> size_ring r - write_pointer r < a)
        \<and> (ring_inv r \<longrightarrow>
              unat len1 + unat len2 = unat a
            \<and> unat a = (if maxAvailable
                        then length (data_provider r) - unat (samples_in_buffer r)
                        else unat requested)
            \<and> (0 < unat len2 \<longleftrightarrow>
                 length (data_provider r) - unat (write_pointer r) < unat a))"
    using sum wrap nat unfolding Let_def a_def[symmetric] by blast
next
  assume "beginRead requested maxAvailable r = Inr ((len1, ptr1, len2, ptr2), r1) \<and> ptr1 \<noteq> None"
  then have br: "beginRead requested maxAvailable r = Inr ((len1, ptr1, len2, ptr2), r1)"
    and nn: "ptr1 \<noteq> None" by simp_all
  define a where "a = (if maxAvailable then samples_in_buffer r else requested)"
  from br nn have l1: "len1 = min a (size_ring r - read_pointer r)" and l2: "len2 = a - len1"
    and pr: "pending_read_size r1 = a"
    by (auto simp: beginRead_eq Let_def a_def split: if_splits)
  have sum: "len1 + len2 = a" using l2 by simp
  have wrap: "0 < len2 \<longleftrightarrow> size_ring r - read_pointer r < a"
    using l1 l2 by (auto simp: min_def word_greater_zero_iff not_le)
  have nat: "unat len1 + unat len2 = unat a
            \<and> (0 < unat len2 \<longleftrightarrow>
                 length (data_provider r) - unat (read_pointer r) < unat a)" if inv: "ring_inv r"
  proof -
    note f = beginRead_inv[OF inv br]
    from f(7) nn pr have s: "unat len1 + unat len2 = unat a"
      and ul1: "unat len1 = min (unat len1 + unat len2)
                   (length (data_provider r) - unat (read_pointer r))"
      by simp_all
    have w: "0 < unat len2 \<longleftrightarrow>
                 length (data_provider r) - unat (read_pointer r) < unat a"
      using s ul1 by (auto simp: min_def split: if_splits)
    show ?thesis using s w by simp
  qed
  show "let a = (if maxAvailable then samples_in_buffer r else requested)
       in len1 + len2 = a
        \<and> (0 < len2 \<longleftrightarrow> size_ring r - read_pointer r < a)
        \<and> (ring_inv r \<longrightarrow>
              unat len1 + unat len2 = unat a
            \<and> (0 < unat len2 \<longleftrightarrow>
                 length (data_provider r) - unat (read_pointer r) < unat a))"
    using sum wrap nat unfolding Let_def a_def[symmetric] by blast
qed

theorem regions_split_witness:
  "beginWrite 3 False
        \<lparr>data_provider = [1, 2, 3, 0 :: int], write_pointer = 3, read_pointer = 2,
         samples_in_buffer = 1, pending_write_size = 0, pending_read_size = 0,
         read_end_event = True, sync_log = []\<rparr>
      = Inr ((1, Some 3, 2, Some 0),
          \<lparr>data_provider = [1, 2, 3, 0], write_pointer = 3, read_pointer = 2,
           samples_in_buffer = 1, pending_write_size = 3, pending_read_size = 0,
           read_end_event = True, sync_log = [Load memory_order_relaxed]\<rparr>)
   \<and> ring_inv \<lparr>data_provider = [1, 2, 3, 0 :: int], write_pointer = 3, read_pointer = 2,
         samples_in_buffer = 1, pending_write_size = 0, pending_read_size = 0,
         read_end_event = True, sync_log = []\<rparr>
   \<and> (1 :: size_t) + 2 = 3
   \<and> unat (1 :: size_t) + unat (2 :: size_t) = unat (3 :: size_t)
   \<and> 0 < unat (2 :: size_t)
   \<and> length [1, 2, 3, 0 :: int] - unat (3 :: size_t) < unat (3 :: size_t)
   \<and> beginRead 3 True
        \<lparr>data_provider = [5, 2, 3, 4 :: int], write_pointer = 1, read_pointer = 2,
         samples_in_buffer = 3, pending_write_size = 0, pending_read_size = 0,
         read_end_event = True, sync_log = []\<rparr>
      = Inr ((2, Some 2, 1, Some 0),
          \<lparr>data_provider = [5, 2, 3, 4], write_pointer = 1, read_pointer = 2,
           samples_in_buffer = 3, pending_write_size = 0, pending_read_size = 3,
           read_end_event = True, sync_log = [Load memory_order_acquire]\<rparr>)
   \<and> ring_inv \<lparr>data_provider = [5, 2, 3, 4 :: int], write_pointer = 1, read_pointer = 2,
         samples_in_buffer = 3, pending_write_size = 0, pending_read_size = 0,
         read_end_event = True, sync_log = []\<rparr>
   \<and> unat (2 :: size_t) + unat (1 :: size_t) = unat (3 :: size_t)
   \<and> 0 < unat (1 :: size_t)"
proof -
  let ?w = "\<lparr>data_provider = [1, 2, 3, 0 :: int], write_pointer = 3, read_pointer = 2,
         samples_in_buffer = 1, pending_write_size = 0, pending_read_size = 0,
         read_end_event = True, sync_log = []\<rparr>"
  let ?wafter = "\<lparr>data_provider = [1, 2, 3, 0 :: int], write_pointer = 3, read_pointer = 2,
           samples_in_buffer = 1, pending_write_size = 3, pending_read_size = 0,
           read_end_event = True, sync_log = [Load memory_order_relaxed]\<rparr>"
  let ?r = "\<lparr>data_provider = [5, 2, 3, 4 :: int], write_pointer = 1, read_pointer = 2,
         samples_in_buffer = 3, pending_write_size = 0, pending_read_size = 0,
         read_end_event = True, sync_log = []\<rparr>"
  let ?after = "\<lparr>data_provider = [5, 2, 3, 4 :: int], write_pointer = 1, read_pointer = 2,
           samples_in_buffer = 3, pending_write_size = 0, pending_read_size = 3,
           read_end_event = True, sync_log = [Load memory_order_acquire]\<rparr>"
  have w: "beginWrite 3 False ?w = Inr ((1, Some 3, 2, Some 0), ?wafter)" by code_simp
  have wi: "ring_inv ?w" by (simp add: ring_inv_def)
  have r: "beginRead 3 True ?r = Inr ((2, Some 2, 1, Some 0), ?after)" by code_simp
  have ri: "ring_inv ?r" by (simp add: ring_inv_def)
  from regions_split[of 3 False ?w 1 "Some 3" 2 "Some 0" ?wafter] w wi
  have a: "(1 :: size_t) + 2 = 3
     \<and> unat (1 :: size_t) + unat (2 :: size_t) = unat (3 :: size_t)
     \<and> (0 < unat (2 :: size_t)) = (length [1, 2, 3, 0 :: int] - unat (3 :: size_t) < unat (3 :: size_t))"
    by (simp add: Let_def)
  from regions_split[of 3 True ?r 2 "Some 2" 1 "Some 0" ?after] r ri
  have b: "unat (2 :: size_t) + unat (1 :: size_t) = unat (3 :: size_t)"
    by (simp add: Let_def)
  from a b w wi r ri show ?thesis by simp
qed

text \<open>
  C9. On a ring whose counter is 0, \<open>beginRead(r, true)\<close> returns
  \<open>(0, nullptr, 0, nullptr)\<close>: null pointers, not a valid pointer with length zero, and
  the ring is left as it was. This is so for every request \<open>r\<close> that \<open>beginRead\<close> admits;
  a request larger than \<open>size()\<close> fails its assertion.
\<close>

theorem beginRead_empty_maxAvailable:
  assumes "samples_in_buffer r = 0"
  shows "beginRead requested True r =
           (if requested \<le> size_ring r
            then Inr ((0, None, 0, None), log_op (Load memory_order_acquire) r)
            else Inl AssertionFailed)"
  using assms by (simp add: beginRead_eq not_le)

theorem beginRead_empty_maxAvailable_witness:
  "samples_in_buffer (AudioRingBase_init [0, 0, 0, 0 :: int]) = 0
   \<and> beginRead 3 True (AudioRingBase_init [0, 0, 0, 0 :: int])
       = Inr ((0, None, 0, None),
           \<lparr>data_provider = [0, 0, 0, 0], write_pointer = 0, read_pointer = 0,
            samples_in_buffer = 0, pending_write_size = 0, pending_read_size = 0,
            read_end_event = False, sync_log = [Load memory_order_acquire]\<rparr>)
   \<and> beginRead 5 True (AudioRingBase_init [0, 0, 0, 0 :: int]) = Inl AssertionFailed"
proof -
  let ?r = "AudioRingBase_init [0, 0, 0, 0 :: int]"
  have h: "samples_in_buffer ?r = 0" by (simp add: AudioRingBase_init_def)
  from beginRead_empty_maxAvailable[OF h, of 3] beginRead_empty_maxAvailable[OF h, of 5] h
  show ?thesis
    by (simp add: log_op_def AudioRingBase_init_def size_ring_def)
qed

text \<open>
  C10. In a ring that was constructed (with a non-empty array) and then used through any
  sequence of calls, every region \<open>beginWrite\<close> and \<open>beginRead\<close> return lies inside the
  backing array of length \<open>size()\<close>: the first region starts at the current write
  (resp. read) pointer and has \<open>len1 \<le> size() - pointer\<close>, the second region starts at
  index 0 and has \<open>len2 \<le> size()\<close>, and \<open>len1 + len2 \<le> size()\<close>. A null pointer comes
  with length 0.
\<close>

theorem regions_in_bounds:
  fixes r0 :: "('e::zero) AudioRingBase"
  assumes ctor: "AllocatedAudioRing n = Inr r0 \<or> (InlineAudioRing n = Inr r0 \<and> n \<noteq> 0)"
    and calls: "run_calls cs r0 = Inr r"
  shows "(beginWrite requested maxAvailable r = Inr ((len1, ptr1, len2, ptr2), r1) \<longrightarrow>
            ptr1 = Some (write_pointer r)
          \<and> unat (write_pointer r) + unat len1 \<le> length (data_provider r1)
          \<and> unat len1 \<le> unat (size_ring r) - unat (write_pointer r)
          \<and> (if len2 = 0 then ptr2 = None else ptr2 = Some 0)
          \<and> unat len2 \<le> unat (size_ring r)
          \<and> unat len1 + unat len2 \<le> unat (size_ring r))
       \<and> (beginRead requested maxAvailable r = Inr ((len1, ptr1, len2, ptr2), r1) \<longrightarrow>
            (if ptr1 = None then len1 = 0 \<and> len2 = 0 \<and> ptr2 = None
             else ptr1 = Some (read_pointer r)
                \<and> unat (read_pointer r) + unat len1 \<le> length (data_provider r1)
                \<and> unat len1 \<le> unat (size_ring r) - unat (read_pointer r)
                \<and> (if len2 = 0 then ptr2 = None else ptr2 = Some 0)
                \<and> unat len2 \<le> unat (size_ring r)
                \<and> unat len1 + unat len2 \<le> unat (size_ring r)))
       \<and> unat (size_ring r) = length (data_provider r)"
proof -
  have inv: "ring_inv r" using run_calls_inv[OF constructed_inv[OF ctor] calls] .
  define N where "N = length (data_provider r)"
  have N63: "N < 2 ^ 63" and pos: "0 < N"
    and rp: "unat (read_pointer r) < N"
    and wpe: "unat (write_pointer r) =
        (unat (read_pointer r) + unat (samples_in_buffer r)) mod N"
    and sib: "unat (samples_in_buffer r) \<le> N"
    using inv by (simp_all add: ring_inv_def N_def)
  have wp: "unat (write_pointer r) < N" using wpe pos by simp
  have sz: "unat (size_ring r) = N" using N63 by (simp add: unat_size_ring N_def)
  have W: "ptr1 = Some (write_pointer r)
          \<and> unat (write_pointer r) + unat len1 \<le> length (data_provider r1)
          \<and> unat len1 \<le> unat (size_ring r) - unat (write_pointer r)
          \<and> (if len2 = 0 then ptr2 = None else ptr2 = Some 0)
          \<and> unat len2 \<le> unat (size_ring r)
          \<and> unat len1 + unat len2 \<le> unat (size_ring r)"
    if bw: "beginWrite requested maxAvailable r = Inr ((len1, ptr1, len2, ptr2), r1)"
  proof -
    note f = beginWrite_inv[OF inv bw, folded N_def]
    have l1: "unat len1 \<le> N - unat (write_pointer r)" using f(9) by simp
    have p2: "if len2 = 0 then ptr2 = None else ptr2 = Some 0"
      using bw by (auto simp: beginWrite_eq Let_def split: if_splits)
    show ?thesis using f(1,7,8) l1 wp p2 sz by (simp add: N_def)
  qed
  have R: "ptr1 = Some (read_pointer r)
                \<and> unat (read_pointer r) + unat len1 \<le> length (data_provider r1)
                \<and> unat len1 \<le> unat (size_ring r) - unat (read_pointer r)
                \<and> (if len2 = 0 then ptr2 = None else ptr2 = Some 0)
                \<and> unat len2 \<le> unat (size_ring r)
                \<and> unat len1 + unat len2 \<le> unat (size_ring r)"
    if br: "beginRead requested maxAvailable r = Inr ((len1, ptr1, len2, ptr2), r1)"
      and nn: "ptr1 \<noteq> None"
  proof -
    note f = beginRead_inv[OF inv br, folded N_def]
    from f(7) nn have p1: "ptr1 = Some (read_pointer r)"
      and Asib: "unat len1 + unat len2 \<le> unat (samples_in_buffer r)"
      and ul1: "unat len1 = min (unat len1 + unat len2) (N - unat (read_pointer r))"
      by simp_all
    have l1: "unat len1 \<le> N - unat (read_pointer r)" using ul1 by simp
    have p2: "if len2 = 0 then ptr2 = None else ptr2 = Some 0"
      using br nn by (auto simp: beginRead_eq Let_def split: if_splits)
    show ?thesis using f(1) p1 Asib sib l1 rp p2 sz by (simp add: N_def)
  qed
  have R0: "len1 = 0 \<and> len2 = 0 \<and> ptr2 = None"
    if br: "beginRead requested maxAvailable r = Inr ((len1, ptr1, len2, ptr2), r1)"
      and nn: "ptr1 = None"
    using br nn by (auto simp: beginRead_eq Let_def split: if_splits)
  show ?thesis using W R R0 sz by (simp add: N_def)
qed

theorem regions_in_bounds_witness:
  "AllocatedAudioRing 4 = Inr (AudioRingBase_init [0, 0, 0, 0 :: int])
   \<and> run_calls [BeginWrite 3 False, ClientStore [1, 2, 3, 0], EndWrite 3,
                 BeginRead 2 False, EndRead 2]
        (AudioRingBase_init [0, 0, 0, 0 :: int])
      = Inr \<lparr>data_provider = [1, 2, 3, 0], write_pointer = 3, read_pointer = 2,
             samples_in_buffer = 1, pending_write_size = 0, pending_read_size = 0,
             read_end_event = True,
             sync_log =
               [Load memory_order_relaxed, FetchAdd 3 memory_order_release,
                Load memory_order_acquire, FetchSub 2 memory_order_release, EventSignal]\<rparr>
   \<and> beginWrite 3 False
        \<lparr>data_provider = [1, 2, 3, 0 :: int], write_pointer = 3, read_pointer = 2,
         samples_in_buffer = 1, pending_write_size = 0, pending_read_size = 0,
         read_end_event = True,
         sync_log =
           [Load memory_order_relaxed, FetchAdd 3 memory_order_release,
            Load memory_order_acquire, FetchSub 2 memory_order_release, EventSignal]\<rparr>
      = Inr ((1, Some 3, 2, Some 0),
          \<lparr>data_provider = [1, 2, 3, 0], write_pointer = 3, read_pointer = 2,
           samples_in_buffer = 1, pending_write_size = 3, pending_read_size = 0,
           read_end_event = True,
           sync_log =
             [Load memory_order_relaxed, FetchAdd 3 memory_order_release,
              Load memory_order_acquire, FetchSub 2 memory_order_release, EventSignal,
              Load memory_order_relaxed]\<rparr>)
   \<and> unat (3 :: size_t) + unat (1 :: size_t) \<le> length [1, 2, 3, 0 :: int]
   \<and> unat (1 :: size_t) + unat (2 :: size_t) \<le> length [1, 2, 3, 0 :: int]"
proof -
  let ?init = "AudioRingBase_init [0, 0, 0, 0 :: int]"
  let ?r = "\<lparr>data_provider = [1, 2, 3, 0 :: int], write_pointer = 3, read_pointer = 2,
         samples_in_buffer = 1, pending_write_size = 0, pending_read_size = 0,
         read_end_event = True,
         sync_log =
           [Load memory_order_relaxed, FetchAdd 3 memory_order_release,
            Load memory_order_acquire, FetchSub 2 memory_order_release, EventSignal]\<rparr>"
  let ?after = "\<lparr>data_provider = [1, 2, 3, 0 :: int], write_pointer = 3, read_pointer = 2,
           samples_in_buffer = 1, pending_write_size = 3, pending_read_size = 0,
           read_end_event = True,
           sync_log =
             [Load memory_order_relaxed, FetchAdd 3 memory_order_release,
              Load memory_order_acquire, FetchSub 2 memory_order_release, EventSignal,
              Load memory_order_relaxed]\<rparr>"
  have h1: "AllocatedAudioRing 4 = Inr ?init" by code_simp
  have h2: "run_calls [BeginWrite 3 False, ClientStore [1, 2, 3, 0], EndWrite 3,
                 BeginRead 2 False, EndRead 2] ?init = Inr ?r" by code_simp
  have h3: "beginWrite 3 False ?r = Inr ((1, Some 3, 2, Some 0), ?after)" by code_simp
  from regions_in_bounds[OF disjI1[OF h1] h2, of 3 False 1 "Some 3" 2 "Some 0" ?after] h3
  have "unat (write_pointer ?r) + unat (1 :: size_t) \<le> length (data_provider ?after)
      \<and> unat (1 :: size_t) + unat (2 :: size_t) \<le> unat (size_ring ?r)
      \<and> unat (size_ring ?r) = length (data_provider ?r)"
    by blast
  then have "unat (3 :: size_t) + unat (1 :: size_t) \<le> length [1, 2, 3, 0 :: int]
      \<and> unat (1 :: size_t) + unat (2 :: size_t) \<le> length [1, 2, 3, 0 :: int]"
    by simp
  with h1 h2 h3 show ?thesis by blast
qed

section \<open>Properties of a global effect\<close>
lemma fill_zero_below: "i < k \<Longrightarrow> fill_zero k buf i = 0"
  by (simp add: fill_zero_def)

lemma unat_mult_channels:
  fixes c b m :: uint
  assumes "c \<le> m" and "unat b * unat m < 2 ^ 32"
  shows "unat c * unat b \<le> unat b * unat m" and "unat (c * b) = unat c * unat b"
proof -
  have cm: "unat c \<le> unat m" using assms(1) by (simp add: word_le_nat_alt)
  have "unat c * unat b \<le> unat m * unat b" using cm by (rule mult_le_mono1)
  then show le: "unat c * unat b \<le> unat b * unat m" by (simp only: mult.commute)
  have "unat c * unat b < 2 ^ 32" using le assms(2) by (rule le_less_trans)
  then have "unat c * unat b < 2 ^ LENGTH(32)" by simp
  then show "unat (c * b) = unat c * unat b"
    by (rule unat_mult_lem[THEN iffD1])
qed

text \<open>
  C5. For every \<open>GlobalEffect\<close> with \<open>0 < channels \<le> MAX_CHANNELS\<close> (and a filter factory
  that delivers a filter for that channel count) a call of \<open>run\<close> returns, and its result
  is that of these steps in this order: the biquad filter, reconfigured if the filter
  property changed, processes the input bus in place; \<open>runEffect\<close> gets that filtered
  input bus and the destination, and what it leaves in the destination is the
  destination after \<open>run\<close>; the first \<open>channels * BLOCK_SIZE\<close> entries of the input bus are
  then set to 0. So after \<open>run\<close> the input bus is 0 on all entries of the effect's channels.
\<close>

theorem run_filter_effect_zero:
  fixes env :: "('s::zero, 'f, 'x, 'c) effect_env"
  assumes c: "channels e \<noteq> 0"
    and cmax: "channels e \<le> MAX_CHANNELS env"
    and arr: "unat (BLOCK_SIZE env) * unat (MAX_CHANNELS env) < 2 ^ 32"
    and filt: "createBiquadFilter env (channels e) \<noteq> None"
  shows "\<exists>f0 e' destination'.
      (if biquad_filter e = None \<or> channels e \<noteq> last_channels e
       then createBiquadFilter env (channels e) else biquad_filter e) = Some f0
    \<and> run env out_channels destination e = Inr (e', destination')
    \<and> (let (cfg, derived1) = acquireFilter env (derived e);
            f1 = (case cfg of Some biquad_cfg \<Rightarrow> configure env f0 biquad_cfg | None \<Rightarrow> f0);
            (f2, filtered) = processBlock env f1 (input_buffer e) (input_buffer e) False;
            (derived2, input2, destination2) =
               runEffect env derived1 (time_in_blocks e) (channels e) filtered
                 out_channels destination (getGain env derived1)
        in destination' = destination2
         \<and> input_buffer e' = fill_zero (unat (channels e) * unat (BLOCK_SIZE env)) input2
         \<and> biquad_filter e' = Some f2
         \<and> derived e' = derived2)
    \<and> (\<forall>i < unat (channels e) * unat (BLOCK_SIZE env). input_buffer e' i = 0)
    \<and> channels e' = channels e
    \<and> last_channels e' = channels e
    \<and> time_in_blocks e' = time_in_blocks e + 1"
proof -
  define filter1 where "filter1 =
     (if biquad_filter e = None \<or> channels e \<noteq> last_channels e
      then createBiquadFilter env (channels e) else biquad_filter e)"
  have "filter1 \<noteq> None" using filt by (auto simp: filter1_def)
  then obtain f0 where f0: "filter1 = Some f0" by auto
  have f1': "(if (biquad_filter e = None \<or> channels e \<noteq> last_channels e) \<and> channels e \<noteq> 0
             then createBiquadFilter env (channels e) else biquad_filter e) = Some f0"
    using f0 c by (simp add: filter1_def)
  obtain cfg derived1 where acq: "acquireFilter env (derived e) = (cfg, derived1)"
    by (cases "acquireFilter env (derived e)")
  define f1 where "f1 = (case cfg of Some biquad_cfg \<Rightarrow> configure env f0 biquad_cfg | None \<Rightarrow> f0)"
  obtain f2 filtered where pb:
    "processBlock env f1 (input_buffer e) (input_buffer e) False = (f2, filtered)"
    by (cases "processBlock env f1 (input_buffer e) (input_buffer e) False")
  obtain derived2 input2 destination2 where re:
    "runEffect env derived1 (time_in_blocks e) (channels e) filtered
       out_channels destination (getGain env derived1) = (derived2, input2, destination2)"
    by (cases "runEffect env derived1 (time_in_blocks e) (channels e) filtered
       out_channels destination (getGain env derived1)") auto
  note k = unat_mult_channels[OF cmax arr]
  define e' where "e' = e\<lparr>input_buffer := fill_zero (unat (channels e) * unat (BLOCK_SIZE env)) input2,
                     last_channels := channels e,
                     biquad_filter := Some f2,
                     derived := derived2,
                     time_in_blocks := time_in_blocks e + 1\<rparr>"
  have inb: "\<not> unat (BLOCK_SIZE env) * unat (MAX_CHANNELS env)
                < unat (channels e * BLOCK_SIZE env)"
    using k by (simp only: not_less)
  have run: "run env out_channels destination e = Inr (e', destination2)"
    unfolding run_def f1' using acq pb re inb k(2)
    by (simp add: Let_def f1_def[symmetric] e'_def)
  have zero: "\<forall>i < unat (channels e) * unat (BLOCK_SIZE env). input_buffer e' i = 0"
    by (simp add: e'_def fill_zero_below)
  show ?thesis
    apply (rule exI[of _ f0], rule exI[of _ e'], rule exI[of _ destination2])
    using f0 run zero acq pb re
    by (simp add: filter1_def f1_def[symmetric] e'_def)
qed

theorem run_filter_effect_zero_witness:
  "channels \<lparr>input_buffer = (\<lambda>i. 5 :: int), channels = 1, time_in_blocks = 0,
              last_channels = 0, biquad_filter = None :: nat option, derived = ()\<rparr> \<noteq> 0
   \<and> (1 :: uint) \<le> 2
   \<and> unat (2 :: uint) * unat (2 :: uint) < 2 ^ 32
   \<and> (case run
          \<lparr>BLOCK_SIZE = 2, MAX_CHANNELS = 2,
           createBiquadFilter = (\<lambda>c. Some 0),
           acquireFilter = (\<lambda>x. (None :: unit option, x)),
           configure = (\<lambda>f c. f),
           processBlock = (\<lambda>f inp out add. (Suc f, \<lambda>i. 2 * inp i)),
           runEffect = (\<lambda>x t c inp oc dest g. (x, inp, \<lambda>i. dest i + g * inp i)),
           getGain = (\<lambda>x. 3)\<rparr>
          2 (\<lambda>i. 1)
          \<lparr>input_buffer = (\<lambda>i. 5 :: int), channels = 1, time_in_blocks = 0,
           last_channels = 0, biquad_filter = None :: nat option, derived = ()\<rparr>
        of Inl err \<Rightarrow> False
         | Inr (e', destination') \<Rightarrow>
             input_buffer e' 0 = 0 \<and> input_buffer e' 1 = 0 \<and> input_buffer e' 2 = 10
           \<and> destination' 0 = 31 \<and> biquad_filter e' = Some 1)"
proof -
  let ?env = "\<lparr>BLOCK_SIZE = 2, MAX_CHANNELS = 2,
           createBiquadFilter = (\<lambda>c. Some (0 :: nat)),
           acquireFilter = (\<lambda>x :: unit. (None :: unit option, x)),
           configure = (\<lambda>f c. f),
           processBlock = (\<lambda>f inp out add. (Suc f, \<lambda>i. 2 * inp i)),
           runEffect = (\<lambda>x t c inp oc dest g. (x, inp, \<lambda>i. dest i + g * inp i)),
           getGain = (\<lambda>x. 3 :: int)\<rparr>"
  let ?e = "\<lparr>input_buffer = (\<lambda>i. 5 :: int), channels = 1, time_in_blocks = 0,
           last_channels = 0, biquad_filter = None :: nat option, derived = ()\<rparr>"
  have h1: "channels ?e \<noteq> 0" by simp
  have h2: "channels ?e \<le> MAX_CHANNELS ?env" by simp
  have h3: "unat (BLOCK_SIZE ?env) * unat (MAX_CHANNELS ?env) < 2 ^ 32" by simp
  have h4: "createBiquadFilter ?env (channels ?e) \<noteq> None" by simp
  from run_filter_effect_zero[OF h1 h2 h3 h4, of 2 "\<lambda>i. 1"]
  obtain e' destination' where
    r: "run ?env 2 (\<lambda>i. 1) ?e = Inr (e', destination')"
    and d: "destination' = (\<lambda>i. 1 + 3 * (2 * 5))"
    and b: "input_buffer e' = fill_zero (unat (1 :: uint) * unat (2 :: uint)) (\<lambda>i. 2 * 5)"
    and f: "biquad_filter e' = Some (Suc 0)"
    and z: "\<forall>i < unat (1 :: uint) * unat (2 :: uint). input_buffer e' i = 0"
    by (auto simp: Let_def)
  have "input_buffer e' 0 = 0 \<and> input_buffer e' 1 = 0" using z by simp
  moreover have "input_buffer e' 2 = 10" using b by (simp add: fill_zero_def)
  moreover have "destination' 0 = 31" using d by simp
  ultimately show ?thesis using r f by simp
qed

section \<open>Properties of the filter design functions\<close>

text \<open>
  C6. When the prologue admits the call, \<open>syz_biquadDesignIdentity\<close> returns 0 and
  stores \<open>b0 = 1\<close>, \<open>b1 = b2 = a1 = a2 = 0\<close> and \<open>gain = 1\<close>, whatever \<^verbatim>\<open>*filter\<close> held.
\<close>

theorem syz_biquadDesignIdentity_stores_identity:
  assumes "prologue env = None"
  shows "syz_biquadDesignIdentity env filter'
           = (0, \<lparr>b0 = 1, b1 = 0, b2 = 0, a1 = 0, a2 = 0, gain = 1\<rparr>)"
  using assms by (simp add: syz_biquadDesignIdentity_def)

theorem syz_biquadDesignIdentity_stores_identity_witness:
  "prologue \<lparr>SR = 44100 :: real, prologue = None :: unit option, epilogue = (\<lambda>x. 1),
             designAudioEqLowpass = (\<lambda>w q. Inl ()),
             designAudioEqHighpass = (\<lambda>w q. Inl ()),
             designAudioEqBandpass = (\<lambda>w bw. Inl ())\<rparr> = None
   \<and> syz_biquadDesignIdentity
        \<lparr>SR = 44100 :: real, prologue = None :: unit option, epilogue = (\<lambda>x. 1),
         designAudioEqLowpass = (\<lambda>w q. Inl ()),
         designAudioEqHighpass = (\<lambda>w q. Inl ()),
         designAudioEqBandpass = (\<lambda>w bw. Inl ())\<rparr>
        \<lparr>b0 = 5, b1 = 6, b2 = 7, a1 = 8, a2 = 9, gain = 10\<rparr>
      = (0, \<lparr>b0 = 1, b1 = 0, b2 = 0, a1 = 0, a2 = 0, gain = 1\<rparr>)"
proof -
  let ?env = "\<lparr>SR = 44100 :: real, prologue = None :: unit option, epilogue = (\<lambda>x. 1),
         designAudioEqLowpass = (\<lambda>w q. Inl ()),
         designAudioEqHighpass = (\<lambda>w q. Inl ()),
         designAudioEqBandpass = (\<lambda>w bw. Inl ())\<rparr>"
  have h: "prologue ?env = None" by simp
  from syz_biquadDesignIdentity_stores_identity[OF h, of "\<lparr>b0 = 5, b1 = 6, b2 = 7, a1 = 8, a2 = 9, gain = 10\<rparr>"] h
  show ?thesis by simp
qed

text \<open>
  C7. A call of \<open>syz_biquadDesignLowpass\<close>, \<open>syz_biquadDesignHighpass\<close> or
  \<open>syz_biquadDesignBandpass\<close> that returns a code other than 0 leaves \<^verbatim>\<open>*filter\<close> with the
  value it held before the call.
\<close>

theorem design_error_leaves_output:
  "(fst (syz_biquadDesignLowpass env filter' frequency q) \<noteq> 0 \<longrightarrow>
      snd (syz_biquadDesignLowpass env filter' frequency q) = filter')
 \<and> (fst (syz_biquadDesignHighpass env filter' frequency q) \<noteq> 0 \<longrightarrow>
      snd (syz_biquadDesignHighpass env filter' frequency q) = filter')
 \<and> (fst (syz_biquadDesignBandpass env filter' frequency bw) \<noteq> 0 \<longrightarrow>
      snd (syz_biquadDesignBandpass env filter' frequency bw) = filter')"
  by (simp add: syz_biquadDesignLowpass_def syz_biquadDesignHighpass_def
      syz_biquadDesignBandpass_def split: option.splits sum.splits)

theorem design_error_leaves_output_witness:
  "fst (syz_biquadDesignLowpass
        \<lparr>SR = 44100 :: real, prologue = None :: unit option, epilogue = (\<lambda>x. 1),
         designAudioEqLowpass = (\<lambda>w q. Inl ()),
         designAudioEqHighpass = (\<lambda>w q. Inr \<lparr>num_coefs = [w, q, 1], den_coefs = [2, 3], gain = 4\<rparr>),
         designAudioEqBandpass = (\<lambda>w bw. Inl ())\<rparr>
        \<lparr>b0 = 5, b1 = 6, b2 = 7, a1 = 8, a2 = 9, gain = 10\<rparr> 441 2) \<noteq> 0
   \<and> snd (syz_biquadDesignLowpass
        \<lparr>SR = 44100 :: real, prologue = None :: unit option, epilogue = (\<lambda>x. 1),
         designAudioEqLowpass = (\<lambda>w q. Inl ()),
         designAudioEqHighpass = (\<lambda>w q. Inr \<lparr>num_coefs = [w, q, 1], den_coefs = [2, 3], gain = 4\<rparr>),
         designAudioEqBandpass = (\<lambda>w bw. Inl ())\<rparr>
        \<lparr>b0 = 5, b1 = 6, b2 = 7, a1 = 8, a2 = 9, gain = 10\<rparr> 441 2)
      = \<lparr>b0 = 5, b1 = 6, b2 = 7, a1 = 8, a2 = 9, gain = 10\<rparr>"
proof -
  let ?env = "\<lparr>SR = 44100 :: real, prologue = None :: unit option, epilogue = (\<lambda>x. 1),
         designAudioEqLowpass = (\<lambda>w q. Inl ()),
         designAudioEqHighpass = (\<lambda>w q. Inr \<lparr>num_coefs = [w, q, 1], den_coefs = [2, 3], gain = 4\<rparr>),
         designAudioEqBandpass = (\<lambda>w bw. Inl ())\<rparr>"
  let ?f = "\<lparr>b0 = 5 :: real, b1 = 6, b2 = 7, a1 = 8, a2 = 9, gain = 10\<rparr>"
  have h: "fst (syz_biquadDesignLowpass ?env ?f 441 2) \<noteq> 0"
    by (simp add: syz_biquadDesignLowpass_def)
  from design_error_leaves_output[of ?env ?f 441 2] h
  have "snd (syz_biquadDesignLowpass ?env ?f 441 2) = ?f" by blast
  with h show ?thesis by blast
qed

text \<open>
  C8. With handlers that return codes other than 0, \<open>syz_biquadDesignLowpass(out, f, q)\<close>
  returns 0 exactly when the prologue admits the call and
  \<open>designAudioEqLowpass(f / SR, q)\<close> returns a definition, and it then stores
  \<open>convertBiquadDef\<close> of that definition; likewise \<open>syz_biquadDesignHighpass\<close> with
  \<open>designAudioEqHighpass\<close> and \<open>syz_biquadDesignBandpass\<close> with \<open>designAudioEqBandpass\<close>,
  each at the frequency \<open>f / SR\<close>. \<open>convertBiquadDef\<close> maps \<open>num_coefs[0..2]\<close> to
  \<open>b0, b1, b2\<close>, \<open>den_coefs[0..1]\<close> to \<open>a1, a2\<close> and \<open>gain\<close> to \<open>gain\<close>.
\<close>

theorem design_stores_converted_cookbook:
  assumes codes: "\<forall>x. epilogue env x \<noteq> 0"
  shows "(fst (syz_biquadDesignLowpass env filter' frequency q) = 0 \<longleftrightarrow>
           prologue env = None \<and>
           (\<exists>def. designAudioEqLowpass env (frequency / SR env) q = Inr def))
      \<and> (\<forall>def. fst (syz_biquadDesignLowpass env filter' frequency q) = 0 \<and>
               designAudioEqLowpass env (frequency / SR env) q = Inr def \<longrightarrow>
               snd (syz_biquadDesignLowpass env filter' frequency q) = convertBiquadDef def)
      \<and> (fst (syz_biquadDesignHighpass env filter' frequency q) = 0 \<longleftrightarrow>
           prologue env = None \<and>
           (\<exists>def. designAudioEqHighpass env (frequency / SR env) q = Inr def))
      \<and> (\<forall>def. fst (syz_biquadDesignHighpass env filter' frequency q) = 0 \<and>
               designAudioEqHighpass env (frequency / SR env) q = Inr def \<longrightarrow>
               snd (syz_biquadDesignHighpass env filter' frequency q) = convertBiquadDef def)
      \<and> (fst (syz_biquadDesignBandpass env filter' frequency bw) = 0 \<longleftrightarrow>
           prologue env = None \<and>
           (\<exists>def. designAudioEqBandpass env (frequency / SR env) bw = Inr def))
      \<and> (\<forall>def. fst (syz_biquadDesignBandpass env filter' frequency bw) = 0 \<and>
               designAudioEqBandpass env (frequency / SR env) bw = Inr def \<longrightarrow>
               snd (syz_biquadDesignBandpass env filter' frequency bw) = convertBiquadDef def)
      \<and> (\<forall>def. b0 (convertBiquadDef def) = num_coefs def ! 0
               \<and> b1 (convertBiquadDef def) = num_coefs def ! 1
               \<and> b2 (convertBiquadDef def) = num_coefs def ! 2
               \<and> a1 (convertBiquadDef def) = den_coefs def ! 0
               \<and> a2 (convertBiquadDef def) = den_coefs def ! 1
               \<and> syz_BiquadConfig.gain (convertBiquadDef def) = BiquadFilterDef.gain def)"
  using codes
  by (auto simp: syz_biquadDesignLowpass_def syz_biquadDesignHighpass_def
      syz_biquadDesignBandpass_def convertBiquadDef_def split: option.splits sum.splits)

theorem design_stores_converted_cookbook_witness:
  "(\<forall>x. epilogue
        \<lparr>SR = 44100 :: real, prologue = None :: unit option, epilogue = (\<lambda>x. 1),
         designAudioEqLowpass = (\<lambda>w q. Inr \<lparr>num_coefs = [w, q, 1], den_coefs = [2, 3], gain = 4\<rparr>),
         designAudioEqHighpass = (\<lambda>w q. Inl ()),
         designAudioEqBandpass = (\<lambda>w bw. Inl ())\<rparr> x \<noteq> 0)
   \<and> syz_biquadDesignLowpass
        \<lparr>SR = 44100 :: real, prologue = None :: unit option, epilogue = (\<lambda>x. 1),
         designAudioEqLowpass = (\<lambda>w q. Inr \<lparr>num_coefs = [w, q, 1], den_coefs = [2, 3], gain = 4\<rparr>),
         designAudioEqHighpass = (\<lambda>w q. Inl ()),
         designAudioEqBandpass = (\<lambda>w bw. Inl ())\<rparr>
        \<lparr>b0 = 5, b1 = 6, b2 = 7, a1 = 8, a2 = 9, gain = 10\<rparr> 22050 7
      = (0, \<lparr>b0 = 1 / 2, b1 = 7, b2 = 1, a1 = 2, a2 = 3, gain = 4\<rparr>)"
proof -
  let ?env = "\<lparr>SR = 44100 :: real, prologue = None :: unit option, epilogue = (\<lambda>x. 1),
         designAudioEqLowpass = (\<lambda>w q. Inr \<lparr>num_coefs = [w, q, 1], den_coefs = [2, 3], gain = 4\<rparr>),
         designAudioEqHighpass = (\<lambda>w q. Inl ()),
         designAudioEqBandpass = (\<lambda>w bw. Inl ())\<rparr>"
  let ?f = "\<lparr>b0 = 5 :: real, b1 = 6, b2 = 7, a1 = 8, a2 = 9, gain = 10\<rparr>"
  let ?def = "\<lparr>num_coefs = [22050 / 44100 :: real, 7, 1], den_coefs = [2, 3], gain = 4\<rparr>"
  have h: "\<forall>x. epilogue ?env x \<noteq> 0" by simp
  have d: "designAudioEqLowpass ?env (22050 / SR ?env) 7 = Inr ?def" by simp
  have z: "fst (syz_biquadDesignLowpass ?env ?f 22050 7) = 0"
    by (simp add: syz_biquadDesignLowpass_def)
  from design_stores_converted_cookbook[OF h, of ?f 22050 7] z d
  have "snd (syz_biquadDesignLowpass ?env ?f 22050 7) = convertBiquadDef ?def" by blast
  then have "snd (syz_biquadDesignLowpass ?env ?f 22050 7)
      = \<lparr>b0 = 1 / 2, b1 = 7, b2 = 1, a1 = 2, a2 = 3, gain = 4\<rparr>"
    by (simp add: convertBiquadDef_def)
  with z h show ?thesis by (metis prod.collapse)
qed

end
